theory Spec2Isabelle
  imports Complex_Main
begin

section \<open>The point trace editor\<close>

text \<open>
  A shallow embedding of \<^verbatim>\<open>point_trace_editor.py\<close>: the class \<^verbatim>\<open>PointTraceEditor\<close>,
  its event handlers, its two hit tests and its distance function.

  Numbers. Tk delivers \<^verbatim>\<open>event.x\<close> and \<^verbatim>\<open>event.y\<close> as Python integers, so a point is a
  pair of \<open>int\<close>, and integer arithmetic is exact. Python's true division \<^verbatim>\<open>/\<close> and the power
  \<^verbatim>\<open>** 0.5\<close> produce floats; every operation with a float operand is an operation on
  IEEE 754 doubles. A double is modelled as the real number it denotes, and an operation on
  doubles as the exact operation followed by rounding to the nearest double (function
  \<open>fl\<close>).

  Widgets. The canvas and the terminal text are redrawn from the fields of the editor and
  never read back, so \<^verbatim>\<open>redraw_canvas\<close> and \<^verbatim>\<open>update_terminal\<close> have no counterpart
  here. The status line is kept (field \<open>status_var\<close>): it is how a handler reports what
  it did. The attribute \<^verbatim>\<open>point_radius\<close> is assigned once in \<^verbatim>\<open>__init__\<close> and never
  again; it is a constant.
\<close>

subsection \<open>Python errors\<close>

datatype py_error = ZeroDivisionError | IndexError | TypeError

subsection \<open>Doubles\<close>

text \<open>
  Rounding to the nearest double, ties to the even significand: 53 bits of significand,
  least exponent \<open>-1022\<close> with gradual underflow below it. The exponent is not bounded
  above: an overflow needs magnitudes beyond \<open>10\<^sup>3\<^sup>0\<^sup>8\<close>, which the coordinates of a
  canvas do not reach.
\<close>

definition round_half_even :: "real \<Rightarrow> int" where
  "round_half_even y =
     (let f = \<lfloor>y\<rfloor>; d = y - of_int f
      in if d < 1 / 2 then f else if 1 / 2 < d then f + 1 else if even f then f else f + 1)"

definition ulp_exponent :: "real \<Rightarrow> int" where
  "ulp_exponent x = max \<lfloor>log 2 \<bar>x\<bar>\<rfloor> (- 1022) - 52"

definition fl :: "real \<Rightarrow> real" where
  "fl x =
     (if x = 0 then 0
      else let u = 2 powr real_of_int (ulp_exponent x)
           in u * real_of_int (round_half_even (x / u)))"

subsection \<open>Python numbers\<close>

text \<open>
  A Python number is an integer or a float. Arithmetic on two integers is integer
  arithmetic; with a float operand the integer is converted (\<^verbatim>\<open>float(i)\<close>, correctly
  rounded) and the operation is the one on doubles. Comparisons between an integer and a
  float compare the exact values. \<^verbatim>\<open>min(a, b)\<close> returns \<open>b\<close> only when \<open>b < a\<close> and
  \<^verbatim>\<open>max(a, b)\<close> returns \<open>b\<close> only when \<open>b > a\<close>, so a tie keeps the first argument with its
  type. The powers \<^verbatim>\<open>v ** 2\<close> and \<^verbatim>\<open>v ** 0.5\<close> of a float go through C's \<^verbatim>\<open>pow\<close>, taken
  here as correctly rounded; \<^verbatim>\<open>v ** 0.5\<close> is only formed of sums of squares.
\<close>

datatype number = PyInt int | PyFloat real

fun to_real :: "number \<Rightarrow> real" where
  "to_real (PyInt i) = real_of_int i"
| "to_real (PyFloat r) = r"

fun to_float :: "number \<Rightarrow> real" where
  "to_float (PyInt i) = fl (real_of_int i)"
| "to_float (PyFloat r) = r"

fun py_add :: "number \<Rightarrow> number \<Rightarrow> number" where
  "py_add (PyInt i) (PyInt j) = PyInt (i + j)"
| "py_add a b = PyFloat (fl (to_float a + to_float b))"

fun py_sub :: "number \<Rightarrow> number \<Rightarrow> number" where
  "py_sub (PyInt i) (PyInt j) = PyInt (i - j)"
| "py_sub a b = PyFloat (fl (to_float a - to_float b))"

fun py_mul :: "number \<Rightarrow> number \<Rightarrow> number" where
  "py_mul (PyInt i) (PyInt j) = PyInt (i * j)"
| "py_mul a b = PyFloat (fl (to_float a * to_float b))"

fun py_pow2 :: "number \<Rightarrow> number" where
  "py_pow2 (PyInt i) = PyInt (i\<^sup>2)"
| "py_pow2 (PyFloat r) = PyFloat (fl (r * r))"

definition py_pow_half :: "number \<Rightarrow> real" where
  "py_pow_half v = fl (sqrt (to_float v))"

definition py_min :: "number \<Rightarrow> number \<Rightarrow> number" where
  "py_min a b = (if to_real b < to_real a then b else a)"

definition py_max :: "number \<Rightarrow> number \<Rightarrow> number" where
  "py_max a b = (if to_real a < to_real b then b else a)"

text \<open>\<^verbatim>\<open>a / b\<close> on two Python integers: the correctly rounded quotient; raises on a zero
  divisor.\<close>

definition py_truediv :: "int \<Rightarrow> int \<Rightarrow> py_error + real" where
  "py_truediv a b =
     (if b = 0 then Inl ZeroDivisionError else Inr (fl (real_of_int a / real_of_int b)))"

subsection \<open>Python lists and strings\<close>

text \<open>\<^verbatim>\<open>xs[i] = v\<close> with a non-negative index: raises out of range.\<close>

definition list_setitem :: "'a list \<Rightarrow> nat \<Rightarrow> 'a \<Rightarrow> py_error + 'a list" where
  "list_setitem xs i v = (if i < length xs then Inr (xs[i := v]) else Inl IndexError)"

text \<open>\<^verbatim>\<open>xs.insert(i, v)\<close> with a non-negative index: past the end it appends.\<close>

definition list_insert :: "'a list \<Rightarrow> nat \<Rightarrow> 'a \<Rightarrow> 'a list" where
  "list_insert xs i v = take i xs @ v # drop i xs"

text \<open>\<^verbatim>\<open>xs.pop(i)\<close> with a non-negative index: the removed element and the rest.\<close>

definition list_pop :: "'a list \<Rightarrow> nat \<Rightarrow> py_error + ('a \<times> 'a list)" where
  "list_pop xs i =
     (if i < length xs then Inr (xs ! i, take i xs @ drop (Suc i) xs) else Inl IndexError)"

text \<open>\<^verbatim>\<open>str(n)\<close> of a Python integer, as an f-string renders it: decimal digits, a minus
  sign in front of a negative number.\<close>

definition digit_char :: "nat \<Rightarrow> char" where
  "digit_char d = ''0123456789'' ! d"

function str_nat :: "nat \<Rightarrow> string" where
  "str_nat n =
     (if n < 10 then [digit_char n] else str_nat (n div 10) @ [digit_char (n mod 10)])"
  by pat_completeness auto
termination
  by (relation "measure id") auto

declare str_nat.simps [simp del]

definition str_int :: "int \<Rightarrow> string" where
  "str_int i = (if i < 0 then CHR ''-'' # str_nat (nat (- i)) else str_nat (nat i))"

text \<open>\<^verbatim>\<open>sep.join(strings)\<close>.\<close>

fun join :: "string \<Rightarrow> string list \<Rightarrow> string" where
  "join sep [] = []"
| "join sep [s] = s"
| "join sep (s # t # ss) = s @ sep @ join sep (t # ss)"

text \<open>\<^verbatim>\<open>keysym.lower()\<close>: Tk's key symbols are ASCII names.\<close>

definition lower_char :: "char \<Rightarrow> char" where
  "lower_char c =
     (case map_of (zip ''ABCDEFGHIJKLMNOPQRSTUVWXYZ'' ''abcdefghijklmnopqrstuvwxyz'') c of
        Some l \<Rightarrow> l
      | None \<Rightarrow> c)"

definition lower :: "string \<Rightarrow> string" where
  "lower s = map lower_char s"

subsection \<open>The editor's fields\<close>

type_synonym point = "int \<times> int"

record editor =
  points :: "point list"
  dragging :: bool
  drag_point_index :: "nat option"
  drag_start_x :: int
  drag_start_y :: int
  mouse_x :: int
  mouse_y :: int
  status_var :: string

definition point_radius :: int where
  "point_radius = 3"

text \<open>The fields as \<^verbatim>\<open>__init__\<close> leaves them.\<close>

definition init :: editor where
  "init =
     \<lparr> points = [], dragging = False, drag_point_index = None,
       drag_start_x = 0, drag_start_y = 0, mouse_x = 0, mouse_y = 0,
       status_var = ''Click: place/drag points or insert on lines, '' @ [CHR 0x27] @ ''d''
         @ [CHR 0x27] @ '': delete point near cursor'' \<rparr>"

subsection \<open>Hit tests\<close>

text \<open>
  \<^verbatim>\<open>find_point_at_position\<close>: the loop over \<^verbatim>\<open>enumerate(self.points)\<close>, with the running
  index \<open>i\<close>; it returns at the first point within the click radius.
\<close>

fun find_point_loop :: "int \<Rightarrow> int \<Rightarrow> int \<Rightarrow> nat \<Rightarrow> point list \<Rightarrow> nat option" where
  "find_point_loop click_radius x y i [] = None"
| "find_point_loop click_radius x y i ((px, py) # rest) =
     (let distance = py_pow_half (PyInt ((x - px)\<^sup>2 + (y - py)\<^sup>2)) in
      if distance \<le> real_of_int click_radius then Some i
      else find_point_loop click_radius x y (Suc i) rest)"

definition find_point_at_position :: "point list \<Rightarrow> int \<Rightarrow> int \<Rightarrow> nat option" where
  "find_point_at_position ps x y =
     (let click_radius = point_radius + 5 in find_point_loop click_radius x y 0 ps)"

text \<open>
  \<^verbatim>\<open>point_to_line_distance\<close>. The division is the only statement that can raise; it is
  kept fallible here, so that what guards it is a property to prove. The clamped projection
  is the integer \<open>0\<close>, the integer \<open>1\<close> or a float strictly between them; with an integer
  projection the closest point is computed in integers.
\<close>

definition point_to_line_distance ::
  "int \<Rightarrow> int \<Rightarrow> int \<Rightarrow> int \<Rightarrow> int \<Rightarrow> int \<Rightarrow> py_error + real" where
  "point_to_line_distance px py x1 y1 x2 y2 =
     (if x1 = x2 \<and> y1 = y2 then
        Inr (py_pow_half (PyInt ((px - x1)\<^sup>2 + (py - y1)\<^sup>2)))
      else
        let line_vec_x = x2 - x1;
            line_vec_y = y2 - y1;
            point_vec_x = px - x1;
            point_vec_y = py - y1;
            line_length_squared = line_vec_x\<^sup>2 + line_vec_y\<^sup>2;
            dot_product_point_line = point_vec_x * line_vec_x + point_vec_y * line_vec_y
        in case py_truediv dot_product_point_line line_length_squared of
             Inl e \<Rightarrow> Inl e
           | Inr ratio \<Rightarrow>
               let projection = py_max (PyInt 0) (py_min (PyInt 1) (PyFloat ratio));
                   closest_x = py_add (PyInt x1) (py_mul projection (PyInt line_vec_x));
                   closest_y = py_add (PyInt y1) (py_mul projection (PyInt line_vec_y));
                   distance =
                     py_pow_half (py_add (py_pow2 (py_sub (PyInt px) closest_x))
                                         (py_pow2 (py_sub (PyInt py) closest_y)))
               in Inr distance)"

text \<open>
  \<^verbatim>\<open>find_line_at_position\<close>: the loop over \<^verbatim>\<open>range(len(self.points) - 1)\<close> reads
  \<^verbatim>\<open>points[i]\<close> and \<^verbatim>\<open>points[i + 1]\<close>, that is the first two elements of what is left of
  the list after \<open>i\<close> steps; it returns at the first segment within the tolerance.
\<close>

fun find_line_loop :: "int \<Rightarrow> int \<Rightarrow> int \<Rightarrow> nat \<Rightarrow> point list \<Rightarrow> py_error + nat option" where
  "find_line_loop line_click_tolerance x y i ((x1, y1) # (x2, y2) # rest) =
     (case point_to_line_distance x y x1 y1 x2 y2 of
        Inl e \<Rightarrow> Inl e
      | Inr d \<Rightarrow>
          if d \<le> real_of_int line_click_tolerance then Inr (Some i)
          else find_line_loop line_click_tolerance x y (Suc i) ((x2, y2) # rest))"
| "find_line_loop line_click_tolerance x y i rest = Inr None"

definition find_line_at_position :: "point list \<Rightarrow> int \<Rightarrow> int \<Rightarrow> py_error + nat option" where
  "find_line_at_position ps x y =
     (if length ps < 2 then Inr None
      else let line_click_tolerance = 5 in find_line_loop line_click_tolerance x y 0 ps)"

subsection \<open>Event handlers\<close>

definition on_canvas_click :: "editor \<Rightarrow> int \<Rightarrow> int \<Rightarrow> py_error + editor" where
  "on_canvas_click s x y =
     (case find_point_at_position (points s) x y of
        Some clicked_point_index \<Rightarrow>
          Inr (s\<lparr> dragging := True,
                  drag_point_index := Some clicked_point_index,
                  drag_start_x := x,
                  drag_start_y := y,
                  status_var := ''Dragging point '' @ str_int (int clicked_point_index + 1) \<rparr>)
      | None \<Rightarrow>
          (case find_line_at_position (points s) x y of
             Inl e \<Rightarrow> Inl e
           | Inr (Some line_segment) \<Rightarrow>
               let insert_index = line_segment + 1 in
               Inr (s\<lparr> points := list_insert (points s) insert_index (x, y),
                       status_var := ''Point inserted at position ''
                         @ str_int (int insert_index + 1) @ '': ('' @ str_int x @ '', ''
                         @ str_int y @ '')'' \<rparr>)
           | Inr None \<Rightarrow>
               let new_points = points s @ [(x, y)] in
               Inr (s\<lparr> points := new_points,
                       status_var := ''Point '' @ str_int (int (length new_points))
                         @ '' placed at ('' @ str_int x @ '', '' @ str_int y @ '')'' \<rparr>)))"

text \<open>
  \<^verbatim>\<open>on_canvas_drag\<close> and \<^verbatim>\<open>on_canvas_release\<close>. The assignment
  \<^verbatim>\<open>self.points[self.drag_point_index] = (x, y)\<close> raises IndexError when the index is out
  of range and TypeError when it is \<^verbatim>\<open>None\<close>; in both handlers it is the first statement
  that writes a field.
\<close>

definition on_canvas_drag :: "editor \<Rightarrow> int \<Rightarrow> int \<Rightarrow> py_error + editor" where
  "on_canvas_drag s x y =
     (if dragging s \<and> drag_point_index s \<noteq> None then
        (case list_setitem (points s) (the (drag_point_index s)) (x, y) of
           Inl e \<Rightarrow> Inl e
         | Inr new_points \<Rightarrow>
             Inr (s\<lparr> points := new_points,
                     status_var := ''Moving point ''
                       @ str_int (int (the (drag_point_index s)) + 1) @ '' to (''
                       @ str_int x @ '', '' @ str_int y @ '')'' \<rparr>))
      else Inr s)"

definition on_canvas_release :: "editor \<Rightarrow> int \<Rightarrow> int \<Rightarrow> py_error + editor" where
  "on_canvas_release s x y =
     (if dragging s then
        (case drag_point_index s of
           None \<Rightarrow> Inl TypeError
         | Some i \<Rightarrow>
             (case list_setitem (points s) i (x, y) of
                Inl e \<Rightarrow> Inl e
              | Inr new_points \<Rightarrow>
                  Inr (s\<lparr> points := new_points,
                          status_var := ''Point '' @ str_int (int i + 1) @ '' moved to (''
                            @ str_int x @ '', '' @ str_int y @ '')'',
                          dragging := False,
                          drag_point_index := None \<rparr>)))
      else Inr s)"

definition on_mouse_move :: "editor \<Rightarrow> int \<Rightarrow> int \<Rightarrow> editor" where
  "on_mouse_move s x y = s\<lparr> mouse_x := x, mouse_y := y \<rparr>"

definition delete_point_at_mouse :: "editor \<Rightarrow> py_error + editor" where
  "delete_point_at_mouse s =
     (case find_point_at_position (points s) (mouse_x s) (mouse_y s) of
        Some point_index \<Rightarrow>
          (case list_pop (points s) point_index of
             Inl e \<Rightarrow> Inl e
           | Inr (deleted_point, new_points) \<Rightarrow>
               Inr (s\<lparr> points := new_points,
                       status_var := ''Deleted point at ('' @ str_int (fst deleted_point)
                         @ '', '' @ str_int (snd deleted_point) @ '')'' \<rparr>))
      | None \<Rightarrow> Inr (s\<lparr> status_var := ''No point near mouse cursor to delete'' \<rparr>))"

definition on_key_press :: "editor \<Rightarrow> string \<Rightarrow> py_error + editor" where
  "on_key_press s keysym = (if lower keysym = ''d'' then delete_point_at_mouse s else Inr s)"

definition clear_points :: "editor \<Rightarrow> editor" where
  "clear_points s = s\<lparr> points := [], status_var := ''All points cleared'' \<rparr>"

text \<open>
  The export text, the expression
  \<^verbatim>\<open>", ".join([f"({x}, {y})" for x, y in self.points])\<close> of \<^verbatim>\<open>copy_coordinates\<close> (and of
  \<^verbatim>\<open>update_terminal\<close>).
\<close>

definition coord_list :: "point list \<Rightarrow> string" where
  "coord_list ps = join '', '' (map (\<lambda>(x, y). ''('' @ str_int x @ '', '' @ str_int y @ '')'') ps)"

text \<open>
  \<^verbatim>\<open>copy_coordinates\<close>: what it hands to the outside (a warning box, or the export text for
  the clipboard) and the editor afterwards.
\<close>

datatype ui_effect = ShowWarning string string | ClipboardCopy string

definition copy_coordinates :: "editor \<Rightarrow> ui_effect \<times> editor" where
  "copy_coordinates s =
     (if points s = [] then
        (ShowWarning ''No Points'' ''No points to copy. Place some points first.'', s)
      else
        (ClipboardCopy (coord_list (points s)),
         s\<lparr> status_var := ''Coordinates copied to clipboard!'' \<rparr>))"

subsection \<open>The event loop\<close>

text \<open>
  The bindings of \<^verbatim>\<open>__init__\<close>: the four canvas bindings, the key binding and the two
  buttons. While button 1 is held, Tk runs the more specific binding \<^verbatim>\<open><B1-Motion>\<close> and
  not \<^verbatim>\<open><Motion>\<close>.
\<close>

datatype event =
    Button1 int int
  | B1_Motion int int
  | ButtonRelease1 int int
  | Motion int int
  | Key string
  | Clear_All_Points
  | Copy_Coordinates

fun dispatch :: "editor \<Rightarrow> event \<Rightarrow> py_error + editor" where
  "dispatch s (Button1 x y) = on_canvas_click s x y"
| "dispatch s (B1_Motion x y) = on_canvas_drag s x y"
| "dispatch s (ButtonRelease1 x y) = on_canvas_release s x y"
| "dispatch s (Motion x y) = Inr (on_mouse_move s x y)"
| "dispatch s (Key keysym) = on_key_press s keysym"
| "dispatch s Clear_All_Points = Inr (clear_points s)"
| "dispatch s Copy_Coordinates = Inr (snd (copy_coordinates s))"

text \<open>A run of handlers that stops at the first exception.\<close>

fun handle_all :: "editor \<Rightarrow> event list \<Rightarrow> py_error + editor" where
  "handle_all s [] = Inr s"
| "handle_all s (e # es) =
     (case dispatch s e of Inl err \<Rightarrow> Inl err | Inr s' \<Rightarrow> handle_all s' es)"

text \<open>
  Tk's main loop reports an exception of a callback and goes on. Every handler raises
  before it has written a field, so the editor is then as it was.
\<close>

definition step :: "editor \<Rightarrow> event \<Rightarrow> editor" where
  "step s e = (case dispatch s e of Inl err \<Rightarrow> s | Inr s' \<Rightarrow> s')"

definition run :: "editor \<Rightarrow> event list \<Rightarrow> editor" where
  "run s es = foldl step s es"

inductive reachable :: "editor \<Rightarrow> bool" where
  reachable_init: "reachable init"
| reachable_step: "reachable s \<Longrightarrow> reachable (step s e)"

subsection \<open>The specification's predicates\<close>

text \<open>
  The two proximity conditions in the specification's words, to compare the loops with:
  point \<open>i\<close> of the trace lies within the click radius of \<open>(x, y)\<close>, by its Euclidean
  distance as a real number, and segment \<open>k\<close> (from point \<open>k\<close> to point \<open>k + 1\<close>) lies
  within the line tolerance of \<open>(x, y)\<close>, by the distance that
  \<^verbatim>\<open>point_to_line_distance\<close> returns.
\<close>

definition euclidean_distance :: "point \<Rightarrow> point \<Rightarrow> real" where
  "euclidean_distance p q = sqrt ((real_of_int (fst p) - real_of_int (fst q))\<^sup>2
                      + (real_of_int (snd p) - real_of_int (snd q))\<^sup>2)"

definition point_hit :: "point list \<Rightarrow> int \<Rightarrow> int \<Rightarrow> nat \<Rightarrow> bool" where
  "point_hit ps x y i \<longleftrightarrow> i < length ps \<and> euclidean_distance (ps ! i) (x, y) \<le> 8"

definition segment_hit :: "point list \<Rightarrow> int \<Rightarrow> int \<Rightarrow> nat \<Rightarrow> bool" where
  "segment_hit ps x y k \<longleftrightarrow>
     k + 1 < length ps \<and>
     (case point_to_line_distance x y (fst (ps ! k)) (snd (ps ! k))
             (fst (ps ! (k + 1))) (snd (ps ! (k + 1))) of
        Inl e \<Rightarrow> False
      | Inr d \<Rightarrow> d \<le> 5)"


text \<open>
  The distance between two points as the program computes it, the expression
  \<^verbatim>\<open>((x - px) ** 2 + (y - py) ** 2) ** 0.5\<close>: the squares and their sum are exact integers,
  the root is a double.
\<close>

definition float_distance :: "point \<Rightarrow> point \<Rightarrow> real" where
  "float_distance p q = py_pow_half (PyInt ((fst p - fst q)\<^sup>2 + (snd p - snd q)\<^sup>2))"


section \<open>Rounding to the nearest double\<close>

text \<open>
  Rounding keeps the sign, is monotone on the positive numbers, leaves every number
  \<open>m * 2\<^sup>k\<close> with \<open>|m| < 2\<^sup>5\<^sup>3\<close> and \<open>k \<ge> -1074\<close> as it is, and is determined by the
  integer nearest to the scaled argument.
\<close>

lemma round_half_even_of_int: "round_half_even (of_int n) = n"
  by (simp add: round_half_even_def)

lemma round_half_even_bounds: "of_int (round_half_even y) \<le> y + 1 / 2" "y - 1 / 2 \<le> of_int (round_half_even y)"
  unfolding round_half_even_def Let_def by (auto; linarith)+

lemma round_half_even_mono: "y \<le> z \<Longrightarrow> round_half_even y \<le> round_half_even z"
proof -
  assume yz: "y \<le> z"
  then have fl: "\<lfloor>y\<rfloor> \<le> \<lfloor>z\<rfloor>" by (rule floor_mono)
  have ub: "round_half_even y \<le> \<lfloor>y\<rfloor> + 1" and lb: "\<lfloor>z\<rfloor> \<le> round_half_even z"
    unfolding round_half_even_def Let_def by auto
  show ?thesis
  proof (cases "\<lfloor>y\<rfloor> = \<lfloor>z\<rfloor>")
    case True
    with yz show ?thesis
      unfolding round_half_even_def Let_def by auto
  next
    case False
    with fl have "\<lfloor>y\<rfloor> + 1 \<le> \<lfloor>z\<rfloor>" by simp
    with ub lb show ?thesis by linarith
  qed
qed

lemma round_half_even_near: "\<bar>y - of_int m\<bar> < 1 / 2 \<Longrightarrow> round_half_even y = m"
proof -
  assume a: "\<bar>y - of_int m\<bar> < 1 / 2"
  show ?thesis
  proof (cases "of_int m \<le> y")
    case True
    with a have "\<lfloor>y\<rfloor> = m" by (intro floor_unique) linarith+
    with a True show ?thesis by (simp add: round_half_even_def Let_def)
  next
    case False
    with a have f: "\<lfloor>y\<rfloor> = m - 1" by (intro floor_unique; simp; linarith)
    have "1 / 2 < y - of_int (m - 1)" using a False by simp
    with f show ?thesis by (simp add: round_half_even_def Let_def)
  qed
qed

lemma round_half_even_tie:
  assumes "\<bar>y - of_int m\<bar> = 1 / 2" "even m"
  shows "round_half_even y = m"
proof (cases "of_int m \<le> y")
  case True
  with assms(1) have y: "y = of_int m + 1 / 2" by simp
  then have "\<lfloor>y\<rfloor> = m" by (intro floor_unique) simp_all
  with y assms(2) show ?thesis by (simp add: round_half_even_def Let_def)
next
  case False
  with assms(1) have y: "y = of_int (m - 1) + 1 / 2" by simp
  then have "\<lfloor>y\<rfloor> = m - 1" by (intro floor_unique) simp_all
  with y assms(2) show ?thesis by (simp add: round_half_even_def Let_def)
qed

lemma floor_log2_eq:
  assumes "2 powr real_of_int e \<le> x" "x < 2 powr real_of_int (e + 1)"
  shows "\<lfloor>log 2 x\<rfloor> = e"
proof -
  have x: "0 < x" using assms(1) by (smt (verit) powr_gt_zero)
  show ?thesis
    using assms x by (subst floor_log_eq_powr_iff) simp_all
qed

lemma floor_log2_bounds:
  assumes "0 < x"
  shows "2 powr real_of_int \<lfloor>log 2 x\<rfloor> \<le> x" "x < 2 powr real_of_int (\<lfloor>log 2 x\<rfloor> + 1)"
  using floor_log_eq_powr_iff[of x 2 "\<lfloor>log 2 x\<rfloor>"] assms by simp_all

lemma fl_0: "fl 0 = 0"
  by (simp add: fl_def)

lemma fl_nonneg: "0 \<le> x \<Longrightarrow> 0 \<le> fl x"
proof -
  assume x: "0 \<le> x"
  have "0 \<le> round_half_even (x / 2 powr real_of_int (ulp_exponent x))"
    using round_half_even_mono[of 0 "x / 2 powr real_of_int (ulp_exponent x)"] x
    by (simp add: round_half_even_def)
  then show ?thesis by (simp add: fl_def Let_def)
qed

lemma fl_nonpos: "x \<le> 0 \<Longrightarrow> fl x \<le> 0"
proof -
  assume x: "x \<le> 0"
  have "round_half_even (x / 2 powr real_of_int (ulp_exponent x)) \<le> 0"
    using round_half_even_mono[of "x / 2 powr real_of_int (ulp_exponent x)" 0] x
    by (simp add: round_half_even_def divide_nonpos_pos)
  then show ?thesis by (simp add: fl_def Let_def mult_nonneg_nonpos)
qed

lemma ulp_exponent_mono: "0 < x \<Longrightarrow> x \<le> y \<Longrightarrow> ulp_exponent x \<le> ulp_exponent y"
proof -
  assume "0 < x" "x \<le> y"
  then have "log 2 \<bar>x\<bar> \<le> log 2 \<bar>y\<bar>" by simp
  then have "\<lfloor>log 2 \<bar>x\<bar>\<rfloor> \<le> \<lfloor>log 2 \<bar>y\<bar>\<rfloor>" by (rule floor_mono)
  then show ?thesis by (simp add: ulp_exponent_def)
qed

lemma fl_upper:
  assumes "0 < x"
  shows "fl x \<le> 2 powr real_of_int (ulp_exponent x + 53)"
proof -
  let ?E = "ulp_exponent x"
  have "\<lfloor>log 2 x\<rfloor> + 1 \<le> ?E + 53" using assms by (simp add: ulp_exponent_def)
  then have "2 powr real_of_int (\<lfloor>log 2 x\<rfloor> + 1) \<le> 2 powr real_of_int (?E + 53)"
    by (intro powr_mono) simp_all
  with floor_log2_bounds(2)[OF assms] have "x \<le> 2 powr real_of_int (?E + 53)" by linarith
  also have "\<dots> = 2 powr real_of_int ?E * 2 ^ 53"
    by (simp add: powr_add)
  finally have "x / 2 powr real_of_int ?E \<le> of_int (2 ^ 53)"
    by (simp add: field_simps)
  from round_half_even_mono[OF this]
  have "round_half_even (x / 2 powr real_of_int ?E) \<le> 2 ^ 53"
    by (simp only: round_half_even_of_int)
  then have "real_of_int (round_half_even (x / 2 powr real_of_int ?E)) \<le> 2 ^ 53"
    by (metis of_int_le_iff of_int_numeral of_int_power)
  then have "2 powr real_of_int ?E * real_of_int (round_half_even (x / 2 powr real_of_int ?E))
      \<le> 2 powr real_of_int ?E * 2 ^ 53"
    by (intro mult_left_mono) simp_all
  then show ?thesis
    using assms by (simp add: fl_def Let_def powr_add)
qed

lemma fl_lower:
  assumes "0 < x" "- 1022 \<le> \<lfloor>log 2 x\<rfloor>"
  shows "2 powr real_of_int (ulp_exponent x + 52) \<le> fl x"
proof -
  let ?E = "ulp_exponent x"
  have E: "?E + 52 = \<lfloor>log 2 x\<rfloor>" using assms by (simp add: ulp_exponent_def)
  have "2 powr real_of_int (?E + 52) \<le> x"
    unfolding E using floor_log2_bounds(1)[OF assms(1)] .
  moreover have "2 powr real_of_int (?E + 52) = 2 powr real_of_int ?E * 2 ^ 52"
    by (simp add: powr_add)
  ultimately have "of_int (2 ^ 52) \<le> x / 2 powr real_of_int ?E"
    by (simp add: field_simps)
  from round_half_even_mono[OF this]
  have "2 ^ 52 \<le> round_half_even (x / 2 powr real_of_int ?E)"
    by (simp only: round_half_even_of_int)
  then have "2 ^ 52 \<le> real_of_int (round_half_even (x / 2 powr real_of_int ?E))"
    by (metis of_int_le_iff of_int_numeral of_int_power)
  then have "2 powr real_of_int ?E * 2 ^ 52
      \<le> 2 powr real_of_int ?E * real_of_int (round_half_even (x / 2 powr real_of_int ?E))"
    by (intro mult_left_mono) simp_all
  then show ?thesis
    using assms by (simp add: fl_def Let_def powr_add)
qed

lemma fl_mono_pos:
  assumes "0 < x" "x \<le> y"
  shows "fl x \<le> fl y"
proof (cases "ulp_exponent x = ulp_exponent y")
  case True
  have "x / 2 powr real_of_int (ulp_exponent y) \<le> y / 2 powr real_of_int (ulp_exponent y)"
    using assms by (simp add: divide_right_mono)
  from round_half_even_mono[OF this] show ?thesis
    using assms by (simp add: fl_def Let_def True)
next
  case False
  with ulp_exponent_mono[OF assms] have lt: "ulp_exponent x + 1 \<le> ulp_exponent y" by simp
  have y: "0 < y" using assms by simp
  define a where "a = \<lfloor>log 2 \<bar>x\<bar>\<rfloor>"
  define b where "b = \<lfloor>log 2 y\<rfloor>"
  have "max a (- 1022) + 1 \<le> max b (- 1022)"
    using lt y by (simp add: ulp_exponent_def a_def b_def)
  then have "- 1022 \<le> b" by linarith
  then have "- 1022 \<le> \<lfloor>log 2 y\<rfloor>" unfolding b_def .
  from fl_lower[OF y this] have ly: "2 powr real_of_int (ulp_exponent y + 52) \<le> fl y" .
  have "2 powr real_of_int (ulp_exponent x + 53) \<le> 2 powr real_of_int (ulp_exponent y + 52)"
    using lt by (intro powr_mono) simp_all
  with fl_upper[OF assms(1)] ly show ?thesis by linarith
qed

lemma fl_exact:
  assumes m: "\<bar>m\<bar> < 2 ^ 53" and k: "- 1074 \<le> k"
  shows "fl (real_of_int m * 2 powr real_of_int k) = real_of_int m * 2 powr real_of_int k"
proof (cases "m = 0")
  case True
  then show ?thesis by (simp add: fl_0)
next
  case False
  let ?x = "real_of_int m * 2 powr real_of_int k"
  define E where "E = ulp_exponent ?x"
  have x0: "?x \<noteq> 0" using False by simp
  then have ax: "0 < \<bar>?x\<bar>" by simp
  have "real_of_int \<bar>m\<bar> < 2 ^ 53" using m by (metis of_int_less_iff of_int_numeral of_int_power)
  then have "\<bar>?x\<bar> < 2 ^ 53 * 2 powr real_of_int k"
    by (simp add: abs_mult)
  also have "\<dots> = 2 powr real_of_int (k + 53)" by (simp add: powr_add)
  finally have "2 powr real_of_int \<lfloor>log 2 \<bar>?x\<bar>\<rfloor> < 2 powr real_of_int (k + 53)"
    using floor_log2_bounds(1)[OF ax] by linarith
  then have "\<lfloor>log 2 \<bar>?x\<bar>\<rfloor> < k + 53" by simp
  with k have Ek: "E \<le> k" by (simp add: ulp_exponent_def E_def)
  define n where "n = nat (k - E)"
  have kn: "k = E + int n" using Ek by (simp add: n_def)
  have pk: "2 powr real_of_int k = 2 powr real_of_int E * 2 ^ n"
    by (subst kn) (simp add: powr_add powr_realpow)
  have q: "?x / 2 powr real_of_int E = real_of_int (m * 2 ^ n)"
    unfolding pk by simp
  have "fl ?x = 2 powr real_of_int E * real_of_int (round_half_even (?x / 2 powr real_of_int E))"
    using x0 by (simp add: fl_def Let_def E_def)
  also have "\<dots> = 2 powr real_of_int E * real_of_int (m * 2 ^ n)"
    by (simp only: q round_half_even_of_int)
  also have "\<dots> = real_of_int m * (2 powr real_of_int E * 2 ^ n)" by simp
  also have "\<dots> = ?x" by (simp only: pk)
  finally show ?thesis .
qed

lemma fl_round:
  assumes E: "- 1074 \<le> E"
    and lo: "2 powr real_of_int (E + 52) \<le> \<bar>x\<bar>"
    and hi: "\<bar>x\<bar> < 2 powr real_of_int (E + 53)"
    and m: "\<bar>x / 2 powr real_of_int E - real_of_int m\<bar> < 1 / 2"
  shows "fl x = real_of_int m * 2 powr real_of_int E"
proof -
  have x0: "x \<noteq> 0" using lo by (smt (verit) powr_gt_zero)
  have "\<lfloor>log 2 \<bar>x\<bar>\<rfloor> = E + 52"
    using lo hi by (intro floor_log2_eq) (simp_all add: add.commute add.left_commute)
  then have "ulp_exponent x = E" using E by (simp add: ulp_exponent_def)
  with x0 round_half_even_near[OF m] show ?thesis
    by (simp add: fl_def Let_def)
qed

lemma fl_tie:
  assumes E: "- 1074 \<le> E"
    and lo: "2 powr real_of_int (E + 52) \<le> \<bar>x\<bar>"
    and hi: "\<bar>x\<bar> < 2 powr real_of_int (E + 53)"
    and m: "\<bar>x / 2 powr real_of_int E - real_of_int m\<bar> = 1 / 2" "even m"
  shows "fl x = real_of_int m * 2 powr real_of_int E"
proof -
  have x0: "x \<noteq> 0" using lo by (smt (verit) powr_gt_zero)
  have "\<lfloor>log 2 \<bar>x\<bar>\<rfloor> = E + 52"
    using lo hi by (intro floor_log2_eq) (simp_all add: add.commute add.left_commute)
  then have "ulp_exponent x = E" using E by (simp add: ulp_exponent_def)
  with x0 round_half_even_tie[OF m] show ?thesis
    by (simp add: fl_def Let_def)
qed

lemma fl_of_int: "\<bar>m\<bar> < 2 ^ 53 \<Longrightarrow> fl (real_of_int m) = real_of_int m"
  using fl_exact[of m 0] by simp

lemma fl_numeral: "numeral w < (2::int) ^ 53 \<Longrightarrow> fl (numeral w) = numeral w"
  using fl_of_int[of "numeral w"] by simp

lemma fl_neg_numeral: "numeral w < (2::int) ^ 53 \<Longrightarrow> fl (- numeral w) = - numeral w"
  using fl_of_int[of "- numeral w"] by simp

lemma fl_1: "fl 1 = 1"
  using fl_of_int[of 1] by simp

lemma fl_dyadic:
  assumes "\<bar>m\<bar> < 2 ^ 53" "n \<le> 1074"
  shows "fl (real_of_int m / 2 ^ n) = real_of_int m / 2 ^ n"
proof -
  have "2 powr real_of_int (- int n) = 1 / 2 ^ n"
    by (simp add: powr_minus powr_realpow divide_inverse)
  with fl_exact[of m "- int n"] assms show ?thesis by simp
qed

lemma fl_round_nat:
  assumes n: "n \<le> 1074"
    and lo: "2 ^ 52 \<le> \<bar>x\<bar> * 2 ^ n"
    and hi: "\<bar>x\<bar> * 2 ^ n < 2 ^ 53"
    and m: "\<bar>x * 2 ^ n - real_of_int m\<bar> < 1 / 2"
  shows "fl x = real_of_int m / 2 ^ n"
proof -
  have p: "2 powr real_of_int (- int n) = 1 / 2 ^ n"
    by (simp add: powr_minus powr_realpow divide_inverse)
  have e52: "real_of_int (- int n + 52) = real_of_int (- int n) + 52"
    and e53: "real_of_int (- int n + 53) = real_of_int (- int n) + 53" by simp_all
  have n52: "(2::real) powr 52 = 2 ^ 52" and n53: "(2::real) powr 53 = 2 ^ 53" by simp_all
  have p52: "2 powr real_of_int (- int n + 52) = 2 ^ 52 / 2 ^ n"
    unfolding e52 powr_add p n52 by simp
  have p53: "2 powr real_of_int (- int n + 53) = 2 ^ 53 / 2 ^ n"
    unfolding e53 powr_add p n53 by simp
  have "fl x = real_of_int m * 2 powr real_of_int (- int n)"
  proof (rule fl_round)
    show "- 1074 \<le> - int n" using n by simp
    show "2 powr real_of_int (- int n + 52) \<le> \<bar>x\<bar>"
      unfolding p52 using lo by (simp add: field_simps)
    show "\<bar>x\<bar> < 2 powr real_of_int (- int n + 53)"
      unfolding p53 using hi by (simp add: field_simps)
    show "\<bar>x / 2 powr real_of_int (- int n) - real_of_int m\<bar> < 1 / 2"
      unfolding p using m by simp
  qed
  then show ?thesis unfolding p by simp
qed

lemma fl_tie_nat:
  assumes n: "n \<le> 1074"
    and lo: "2 ^ 52 \<le> \<bar>x\<bar> * 2 ^ n"
    and hi: "\<bar>x\<bar> * 2 ^ n < 2 ^ 53"
    and m: "\<bar>x * 2 ^ n - real_of_int m\<bar> = 1 / 2" and ev: "even m"
  shows "fl x = real_of_int m / 2 ^ n"
proof -
  have p: "2 powr real_of_int (- int n) = 1 / 2 ^ n"
    by (simp add: powr_minus powr_realpow divide_inverse)
  have e52: "real_of_int (- int n + 52) = real_of_int (- int n) + 52"
    and e53: "real_of_int (- int n + 53) = real_of_int (- int n) + 53" by simp_all
  have n52: "(2::real) powr 52 = 2 ^ 52" and n53: "(2::real) powr 53 = 2 ^ 53" by simp_all
  have p52: "2 powr real_of_int (- int n + 52) = 2 ^ 52 / 2 ^ n"
    unfolding e52 powr_add p n52 by simp
  have p53: "2 powr real_of_int (- int n + 53) = 2 ^ 53 / 2 ^ n"
    unfolding e53 powr_add p n53 by simp
  have "fl x = real_of_int m * 2 powr real_of_int (- int n)"
  proof (rule fl_tie)
    show "- 1074 \<le> - int n" using n by simp
    show "2 powr real_of_int (- int n + 52) \<le> \<bar>x\<bar>"
      unfolding p52 using lo by (simp add: field_simps)
    show "\<bar>x\<bar> < 2 powr real_of_int (- int n + 53)"
      unfolding p53 using hi by (simp add: field_simps)
    show "\<bar>x / 2 powr real_of_int (- int n) - real_of_int m\<bar> = 1 / 2"
      unfolding p using m by simp
    show "even m" by (rule ev)
  qed
  then show ?thesis unfolding p by simp
qed

lemma fl_sqrt_round:
  assumes n: "n \<le> 1074" and m: "2 ^ 52 < m" "m < 2 ^ 53 - 1"
    and lo: "((real_of_int m - 1 / 2) / 2 ^ n)\<^sup>2 < s"
    and hi: "s < ((real_of_int m + 1 / 2) / 2 ^ n)\<^sup>2"
  shows "fl (sqrt s) = real_of_int m / 2 ^ n"
proof (rule fl_round_nat[OF n])
  from m(1) have "2 ^ 52 + 1 \<le> m" by simp
  then have "real_of_int (2 ^ 52 + 1) \<le> real_of_int m" by (simp only: of_int_le_iff)
  then have m52: "4503599627370497 \<le> real_of_int m" by simp
  from m(2) have "m \<le> 2 ^ 53 - 2" by simp
  then have "real_of_int m \<le> real_of_int (2 ^ 53 - 2)" by (simp only: of_int_le_iff)
  then have m53: "real_of_int m \<le> 9007199254740990" by simp
  have l: "(real_of_int m - 1 / 2) / 2 ^ n < sqrt s"
    using lo by (rule real_less_rsqrt)
  have "0 \<le> (real_of_int m + 1 / 2) / 2 ^ n" using m52 by simp
  then have h: "sqrt s < (real_of_int m + 1 / 2) / 2 ^ n"
    using hi by (intro real_less_lsqrt)
  from l have l': "real_of_int m - 1 / 2 < sqrt s * 2 ^ n" by (simp add: field_simps)
  from h have h': "sqrt s * 2 ^ n < real_of_int m + 1 / 2" by (simp add: field_simps)
  have pos: "0 < sqrt s * 2 ^ n" using l' m52 by linarith
  then have "0 < sqrt s" by (simp add: zero_less_mult_iff)
  then have a: "\<bar>sqrt s\<bar> = sqrt s" by simp
  have "4503599627370496 \<le> sqrt s * 2 ^ n" using l' m52 by linarith
  then show "2 ^ 52 \<le> \<bar>sqrt s\<bar> * 2 ^ n" unfolding a by simp
  have "sqrt s * 2 ^ n < 9007199254740992" using h' m53 by linarith
  then show "\<bar>sqrt s\<bar> * 2 ^ n < 2 ^ 53" unfolding a by simp
  show "\<bar>sqrt s * 2 ^ n - real_of_int m\<bar> < 1 / 2" using l' h' by linarith
qed

lemma fl_sqrt_ge:
  assumes "0 < c" "fl c = c" "c\<^sup>2 \<le> s"
  shows "c \<le> fl (sqrt s)"
proof -
  have "c \<le> sqrt s" using assms(1,3) by (simp add: real_le_rsqrt)
  from fl_mono_pos[OF assms(1) this] assms(2) show ?thesis by simp
qed

lemma fl_sqrt_le:
  assumes "0 \<le> c" "fl c = c" "s \<le> c\<^sup>2"
  shows "fl (sqrt s) \<le> c"
proof (cases "0 < sqrt s")
  case True
  have "sqrt s \<le> c" using assms(1,3) by (simp add: real_le_lsqrt)
  from fl_mono_pos[OF True this] assms(2) show ?thesis by simp
next
  case False
  then have "fl (sqrt s) \<le> 0" by (intro fl_nonpos) simp
  with assms(1) show ?thesis by simp
qed

lemma py_pow_half_nonneg: "0 \<le> to_real v \<Longrightarrow> 0 \<le> py_pow_half v"
proof -
  assume "0 \<le> to_real v"
  then have "0 \<le> to_float v" by (cases v) (simp_all add: fl_nonneg)
  then show ?thesis by (simp add: py_pow_half_def fl_nonneg)
qed


lemma py_pow_half_le_8:
  assumes "0 \<le> n"
  shows "py_pow_half (PyInt n) \<le> 8 \<longleftrightarrow> n \<le> 64"
proof
  assume "n \<le> 64"
  with assms have "fl (real_of_int n) = real_of_int n" by (intro fl_of_int) simp
  moreover have "fl (sqrt (real_of_int n)) \<le> 8"
    using \<open>n \<le> 64\<close> by (intro fl_sqrt_le) (simp_all add: fl_numeral)
  ultimately show "py_pow_half (PyInt n) \<le> 8" by (simp add: py_pow_half_def)
next
  assume le: "py_pow_half (PyInt n) \<le> 8"
  show "n \<le> 64"
  proof (rule ccontr)
    assume "\<not> n \<le> 64"
    then have "(65::real) \<le> real_of_int n" by simp
    from fl_mono_pos[OF _ this] have n65: "65 \<le> fl (real_of_int n)" by (simp add: fl_numeral)
    have c: "fl (real_of_int 4503599627370497 / 2 ^ 49) = real_of_int 4503599627370497 / 2 ^ 49"
      by (rule fl_dyadic) simp_all
    have "(real_of_int 4503599627370497 / 2 ^ 49)\<^sup>2 \<le> 65" by (simp add: power2_eq_square)
    with n65 have "(real_of_int 4503599627370497 / 2 ^ 49)\<^sup>2 \<le> fl (real_of_int n)" by linarith
    from fl_sqrt_ge[OF _ c this] have "real_of_int 4503599627370497 / 2 ^ 49 \<le> py_pow_half (PyInt n)"
      by (simp add: py_pow_half_def)
    moreover have "(8::real) < real_of_int 4503599627370497 / 2 ^ 49" by simp
    ultimately show False using le by linarith
  qed
qed

lemma py_pow_half_le_5:
  assumes "0 \<le> n"
  shows "py_pow_half (PyInt n) \<le> 5 \<longleftrightarrow> n \<le> 25"
proof
  assume "n \<le> 25"
  with assms have "fl (real_of_int n) = real_of_int n" by (intro fl_of_int) simp
  moreover have "fl (sqrt (real_of_int n)) \<le> 5"
    using \<open>n \<le> 25\<close> by (intro fl_sqrt_le) (simp_all add: fl_numeral)
  ultimately show "py_pow_half (PyInt n) \<le> 5" by (simp add: py_pow_half_def)
next
  assume le: "py_pow_half (PyInt n) \<le> 5"
  show "n \<le> 25"
  proof (rule ccontr)
    assume "\<not> n \<le> 25"
    then have "(26::real) \<le> real_of_int n" by simp
    from fl_mono_pos[OF _ this] have n26: "26 \<le> fl (real_of_int n)" by (simp add: fl_numeral)
    have c: "fl (real_of_int 5629499534213121 / 2 ^ 50) = real_of_int 5629499534213121 / 2 ^ 50"
      by (rule fl_dyadic) simp_all
    have "(real_of_int 5629499534213121 / 2 ^ 50)\<^sup>2 \<le> 26" by (simp add: power2_eq_square)
    with n26 have "(real_of_int 5629499534213121 / 2 ^ 50)\<^sup>2 \<le> fl (real_of_int n)" by linarith
    from fl_sqrt_ge[OF _ c this] have "real_of_int 5629499534213121 / 2 ^ 50 \<le> py_pow_half (PyInt n)"
      by (simp add: py_pow_half_def)
    moreover have "(5::real) < real_of_int 5629499534213121 / 2 ^ 50" by simp
    ultimately show False using le by linarith
  qed
qed

section \<open>Auxiliary facts\<close>

lemma sqrt_le_iff: "0 \<le> r \<Longrightarrow> sqrt x \<le> r \<longleftrightarrow> x \<le> r\<^sup>2"
  by (metis real_sqrt_le_iff real_sqrt_abs abs_of_nonneg)

lemma line_length_squared_nonzero:
  "\<not> (x1 = x2 \<and> y1 = y2) \<Longrightarrow> (x2 - x1)\<^sup>2 + (y2 - y1)\<^sup>2 \<noteq> (0::int)"
  by (auto simp add: sum_power2_eq_zero_iff)

lemma float_distance_pair:
  "float_distance (px, py) (x1, y1) = py_pow_half (PyInt ((px - x1)\<^sup>2 + (py - y1)\<^sup>2))"
  by (simp add: float_distance_def)


lemma point_to_line_distance_degenerate:
  "point_to_line_distance px py x1 y1 x1 y1 = Inr (float_distance (px, py) (x1, y1))"
  by (simp add: point_to_line_distance_def float_distance_def)


lemma clamp_high: "1 \<le> r \<Longrightarrow> py_max (PyInt 0) (py_min (PyInt 1) (PyFloat r)) = PyInt 1"
  by (simp add: py_max_def py_min_def)

lemma clamp_mid:
  "0 < r \<Longrightarrow> r < 1 \<Longrightarrow> py_max (PyInt 0) (py_min (PyInt 1) (PyFloat r)) = PyFloat r"
  by (simp add: py_max_def py_min_def)

lemma clamp_cases:
  "py_max (PyInt 0) (py_min (PyInt 1) (PyFloat r)) \<in> {PyInt 0, PyInt 1, PyFloat r}"
  by (simp add: py_max_def py_min_def)

lemma point_to_line_distance_proper:
  assumes "\<not> (x1 = x2 \<and> y1 = y2)"
  shows "point_to_line_distance px py x1 y1 x2 y2 =
    Inr (let projection = py_max (PyInt 0) (py_min (PyInt 1)
               (PyFloat (fl (real_of_int ((px - x1) * (x2 - x1) + (py - y1) * (y2 - y1))
                             / real_of_int ((x2 - x1)\<^sup>2 + (y2 - y1)\<^sup>2)))));
             closest_x = py_add (PyInt x1) (py_mul projection (PyInt (x2 - x1)));
             closest_y = py_add (PyInt y1) (py_mul projection (PyInt (y2 - y1)))
         in py_pow_half (py_add (py_pow2 (py_sub (PyInt px) closest_x))
                                (py_pow2 (py_sub (PyInt py) closest_y))))"
proof -
  have nz: "(x2 - x1)\<^sup>2 + (y2 - y1)\<^sup>2 \<noteq> 0"
    using assms by (rule line_length_squared_nonzero)
  show ?thesis
    unfolding point_to_line_distance_def if_not_P[OF assms] Let_def py_truediv_def if_not_P[OF nz]
    by simp
qed

lemma point_to_line_distance_no_error: "point_to_line_distance px py x1 y1 x2 y2 \<noteq> Inl e"
  by (cases "x1 = x2 \<and> y1 = y2")
     (simp_all only: point_to_line_distance_degenerate point_to_line_distance_proper sum.distinct not_False_eq_True)

lemma py_pow2_nonneg: "0 \<le> to_real (py_pow2 v)"
  by (cases v) (simp_all add: fl_nonneg)

lemma py_add_nonneg: "0 \<le> to_real a \<Longrightarrow> 0 \<le> to_real b \<Longrightarrow> 0 \<le> to_real (py_add a b)"
  by (cases a; cases b) (simp_all add: fl_nonneg)

lemma point_to_line_distance_nonneg:
  "point_to_line_distance px py x1 y1 x2 y2 = Inr d \<Longrightarrow> 0 \<le> d"
proof (cases "x1 = x2 \<and> y1 = y2")
  case True
  assume "point_to_line_distance px py x1 y1 x2 y2 = Inr d"
  with True show ?thesis
    by (auto simp add: point_to_line_distance_def intro!: py_pow_half_nonneg)
next
  case False
  assume "point_to_line_distance px py x1 y1 x2 y2 = Inr d"
  then show ?thesis
    unfolding point_to_line_distance_proper[OF False] Let_def
    by (auto intro!: py_pow_half_nonneg py_add_nonneg py_pow2_nonneg)
qed


lemma past_end_distance:
  assumes "\<not> (x1 = x2 \<and> y1 = y2)"
    and "1 \<le> real_of_int ((px - x1) * (x2 - x1) + (py - y1) * (y2 - y1))
           / real_of_int ((x2 - x1)\<^sup>2 + (y2 - y1)\<^sup>2)"
  shows "point_to_line_distance px py x1 y1 x2 y2 = Inr (float_distance (px, py) (x2, y2))"
proof -
  have "fl 1 \<le> fl (real_of_int ((px - x1) * (x2 - x1) + (py - y1) * (y2 - y1))
           / real_of_int ((x2 - x1)\<^sup>2 + (y2 - y1)\<^sup>2))"
    using assms(2) by (intro fl_mono_pos) simp_all
  then have "1 \<le> fl (real_of_int ((px - x1) * (x2 - x1) + (py - y1) * (y2 - y1))
           / real_of_int ((x2 - x1)\<^sup>2 + (y2 - y1)\<^sup>2))"
    by (simp add: fl_1)
  from clamp_high[OF this] show ?thesis
    unfolding point_to_line_distance_proper[OF assms(1)] Let_def
    by (simp add: float_distance_def)
qed

lemma all_less_Suc_shift: "(\<forall>j<Suc n. P j) \<longleftrightarrow> P 0 \<and> (\<forall>j<n. P (Suc j))"
  by (auto simp: less_Suc_eq_0_disj)

lemma find_point_loop_None_iff:
  "find_point_loop r x y i ps = None \<longleftrightarrow>
     (\<forall>n<length ps. \<not> py_pow_half (PyInt ((x - fst (ps ! n))\<^sup>2 + (y - snd (ps ! n))\<^sup>2)) \<le> real_of_int r)"
proof (induction ps arbitrary: i)
  case Nil
  show ?case by simp
next
  case (Cons p ps)
  obtain px py where p: "p = (px, py)" by (cases p)
  show ?case
    unfolding p by (simp add: Let_def Cons.IH all_less_Suc_shift)
qed

lemma find_point_loop_Some_iff:
  "find_point_loop r x y i ps = Some k \<longleftrightarrow>
     (\<exists>n. k = i + n \<and> n < length ps
        \<and> py_pow_half (PyInt ((x - fst (ps ! n))\<^sup>2 + (y - snd (ps ! n))\<^sup>2)) \<le> real_of_int r
        \<and> (\<forall>j<n. \<not> py_pow_half (PyInt ((x - fst (ps ! j))\<^sup>2 + (y - snd (ps ! j))\<^sup>2)) \<le> real_of_int r))"
  (is "?L i ps \<longleftrightarrow> ?R i ps")
proof (induction ps arbitrary: i)
  case Nil
  show ?case by simp
next
  case (Cons p ps)
  obtain px py where p: "p = (px, py)" by (cases p)
  show ?case
  proof (cases "py_pow_half (PyInt ((x - px)\<^sup>2 + (y - py)\<^sup>2)) \<le> real_of_int r")
    case True
    have "?R i (p # ps) \<longleftrightarrow> k = i"
    proof
      assume "?R i (p # ps)"
      then obtain n where n: "k = i + n" "\<forall>j<n. \<not> py_pow_half (PyInt ((x - fst ((p # ps) ! j))\<^sup>2 + (y - snd ((p # ps) ! j))\<^sup>2)) \<le> real_of_int r"
        by blast
      have "n = 0"
      proof (rule ccontr)
        assume "n \<noteq> 0"
        then have "0 < n" by simp
        with n(2) have "\<not> py_pow_half (PyInt ((x - fst ((p # ps) ! 0))\<^sup>2 + (y - snd ((p # ps) ! 0))\<^sup>2)) \<le> real_of_int r"
          by blast
        with True show False by (simp add: p)
      qed
      with n(1) show "k = i" by simp
    next
      assume "k = i"
      with True show "?R i (p # ps)" by (intro exI[of _ 0]) (simp add: p)
    qed
    with True show ?thesis by (auto simp add: p Let_def)
  next
    case False
    have "?R i (p # ps) \<longleftrightarrow> ?R (Suc i) ps"
    proof
      assume "?R i (p # ps)"
      then obtain n where n: "k = i + n" "n < length (p # ps)"
        "py_pow_half (PyInt ((x - fst ((p # ps) ! n))\<^sup>2 + (y - snd ((p # ps) ! n))\<^sup>2)) \<le> real_of_int r"
        "\<forall>j<n. \<not> py_pow_half (PyInt ((x - fst ((p # ps) ! j))\<^sup>2 + (y - snd ((p # ps) ! j))\<^sup>2)) \<le> real_of_int r"
        by blast
      from n(3) False obtain m where m: "n = Suc m" by (cases n) (simp_all add: p)
      show "?R (Suc i) ps"
        using n unfolding m by (intro exI[of _ m]) (simp add: all_less_Suc_shift)
    next
      assume "?R (Suc i) ps"
      then obtain m where m: "k = Suc i + m" "m < length ps"
        "py_pow_half (PyInt ((x - fst (ps ! m))\<^sup>2 + (y - snd (ps ! m))\<^sup>2)) \<le> real_of_int r"
        "\<forall>j<m. \<not> py_pow_half (PyInt ((x - fst (ps ! j))\<^sup>2 + (y - snd (ps ! j))\<^sup>2)) \<le> real_of_int r"
        by blast
      show "?R i (p # ps)"
        using m False by (intro exI[of _ "Suc m"]) (simp add: all_less_Suc_shift p)
    qed
    with False show ?thesis by (simp add: p Let_def Cons.IH)
  qed
qed

lemma of_int_le_squares: "real_of_int n \<le> 8\<^sup>2 \<longleftrightarrow> n \<le> 64" "real_of_int n \<le> 5\<^sup>2 \<longleftrightarrow> n \<le> 25"
proof -
  have "(8::real)\<^sup>2 = real_of_int 64" "(5::real)\<^sup>2 = real_of_int 25" by simp_all
  then show "real_of_int n \<le> 8\<^sup>2 \<longleftrightarrow> n \<le> 64" "real_of_int n \<le> 5\<^sup>2 \<longleftrightarrow> n \<le> 25"
    by (simp_all only: of_int_le_iff)
qed

lemma point_hit_eval:
  "point_hit ps x y i \<longleftrightarrow>
     i < length ps \<and> (x - fst (ps ! i))\<^sup>2 + (y - snd (ps ! i))\<^sup>2 \<le> 64"
proof -
  have "real_of_int ((x - fst (ps ! i))\<^sup>2 + (y - snd (ps ! i))\<^sup>2) \<le> 8\<^sup>2
      \<longleftrightarrow> (x - fst (ps ! i))\<^sup>2 + (y - snd (ps ! i))\<^sup>2 \<le> 64"
    by (rule of_int_le_squares)
  then show ?thesis
    by (simp add: point_hit_def euclidean_distance_def sqrt_le_iff
        power2_commute[of "real_of_int x"] power2_commute[of "real_of_int y"])
qed

lemma point_hit_iff:
  "point_hit ps x y i \<longleftrightarrow>
     i < length ps \<and> py_pow_half (PyInt ((x - fst (ps ! i))\<^sup>2 + (y - snd (ps ! i))\<^sup>2)) \<le> real_of_int (point_radius + 5)"
proof -
  have "0 \<le> (x - fst (ps ! i))\<^sup>2 + (y - snd (ps ! i))\<^sup>2" by simp
  from py_pow_half_le_8[OF this] show ?thesis
    by (simp add: point_hit_eval point_radius_def)
qed

lemma find_point_at_position_Some_iff:
  "find_point_at_position ps x y = Some i \<longleftrightarrow> point_hit ps x y i \<and> (\<forall>j<i. \<not> point_hit ps x y j)"
  unfolding find_point_at_position_def Let_def find_point_loop_Some_iff point_hit_iff
  by auto

lemma find_point_at_position_None_iff:
  "find_point_at_position ps x y = None \<longleftrightarrow> (\<forall>i. \<not> point_hit ps x y i)"
  unfolding find_point_at_position_def Let_def find_point_loop_None_iff point_hit_iff
  by auto

lemma segment_hit_short: "length ps < 2 \<Longrightarrow> \<not> segment_hit ps x y k"
  by (simp add: segment_hit_def)

lemma segment_hit_Cons_Suc: "segment_hit (p # ps) x y (Suc k) \<longleftrightarrow> segment_hit ps x y k"
  by (simp add: segment_hit_def)

lemma segment_hit_Cons_0:
  "segment_hit ((x1, y1) # (x2, y2) # rest) x y 0 \<longleftrightarrow>
     (\<exists>d. point_to_line_distance x y x1 y1 x2 y2 = Inr d \<and> d \<le> 5)"
  by (simp add: segment_hit_def split: sum.splits)

lemma segment_hit_bound: "segment_hit ps x y k \<Longrightarrow> Suc k < length ps"
  by (simp add: segment_hit_def)

lemma segment_hit_first:
  "point_to_line_distance x y x1 y1 x2 y2 = Inr d \<Longrightarrow>
     segment_hit ((x1, y1) # (x2, y2) # rest) x y 0 \<longleftrightarrow> d \<le> 5"
  by (simp add: segment_hit_def)

lemma find_line_loop_step:
  "find_line_loop 5 x y i ((x1, y1) # (x2, y2) # rest) =
     (if segment_hit ((x1, y1) # (x2, y2) # rest) x y 0 then Inr (Some i)
      else find_line_loop 5 x y (Suc i) ((x2, y2) # rest))"
proof -
  obtain d where d: "point_to_line_distance x y x1 y1 x2 y2 = Inr d"
    using point_to_line_distance_no_error[of x y x1 y1 x2 y2]
    by (cases "point_to_line_distance x y x1 y1 x2 y2") auto
  show ?thesis by (simp add: segment_hit_Cons_0 d)
qed

lemma find_line_loop_Some_iff:
  "find_line_loop 5 x y i ps = Inr (Some k) \<longleftrightarrow>
     (\<exists>n. k = i + n \<and> segment_hit ps x y n \<and> (\<forall>j<n. \<not> segment_hit ps x y j))"
  (is "_ \<longleftrightarrow> ?R i ps")
proof (induction ps arbitrary: i)
  case Nil
  show ?case by (simp add: segment_hit_short)
next
  case (Cons p ps)
  show ?case
  proof (cases ps)
    case Nil
    then show ?thesis by (cases p) (simp add: segment_hit_short)
  next
    case (Cons q rest)
    obtain x1 y1 x2 y2 where pq: "p = (x1, y1)" "q = (x2, y2)" by (cases p, cases q) auto
    show ?thesis
    proof (cases "segment_hit (p # ps) x y 0")
      case True
      have "?R i (p # ps) \<longleftrightarrow> k = i"
      proof
        assume "?R i (p # ps)"
        then obtain n where n: "k = i + n" "\<forall>j<n. \<not> segment_hit (p # ps) x y j" by blast
        have "n = 0"
        proof (rule ccontr)
          assume "n \<noteq> 0"
          then have "0 < n" by simp
          with n(2) True show False by blast
        qed
        with n(1) show "k = i" by simp
      next
        assume "k = i"
        with True show "?R i (p # ps)" by (intro exI[of _ 0]) simp
      qed
      with True show ?thesis
        unfolding Cons pq find_line_loop_step by auto
    next
      case False
      have "?R i (p # ps) \<longleftrightarrow> ?R (Suc i) ps"
      proof
        assume "?R i (p # ps)"
        then obtain n where n: "k = i + n" "segment_hit (p # ps) x y n"
          "\<forall>j<n. \<not> segment_hit (p # ps) x y j" by blast
        from n(2) False obtain m where m: "n = Suc m" by (cases n) auto
        show "?R (Suc i) ps"
          using n unfolding m
          by (intro exI[of _ m]) (simp add: all_less_Suc_shift segment_hit_Cons_Suc)
      next
        assume "?R (Suc i) ps"
        then obtain m where m: "k = Suc i + m" "segment_hit ps x y m"
          "\<forall>j<m. \<not> segment_hit ps x y j" by blast
        show "?R i (p # ps)"
          using m False
          by (intro exI[of _ "Suc m"]) (simp add: all_less_Suc_shift segment_hit_Cons_Suc)
      qed
      moreover have "find_line_loop 5 x y i (p # ps) = find_line_loop 5 x y (Suc i) ps"
        using False unfolding Cons pq find_line_loop_step by simp
      ultimately show ?thesis using Cons.IH by simp
    qed
  qed
qed

lemma find_line_loop_None_iff:
  "find_line_loop 5 x y i ps = Inr None \<longleftrightarrow> (\<forall>n. \<not> segment_hit ps x y n)"
proof (induction ps arbitrary: i)
  case Nil
  show ?case by (simp add: segment_hit_short)
next
  case (Cons p ps)
  show ?case
  proof (cases ps)
    case Nil
    then show ?thesis by (cases p) (simp add: segment_hit_short)
  next
    case (Cons q rest)
    obtain x1 y1 x2 y2 where pq: "p = (x1, y1)" "q = (x2, y2)" by (cases p, cases q) auto
    have split: "(\<forall>n. \<not> segment_hit (p # ps) x y n) \<longleftrightarrow>
        \<not> segment_hit (p # ps) x y 0 \<and> (\<forall>n. \<not> segment_hit ps x y n)"
      by (metis segment_hit_Cons_Suc not0_implies_Suc)
    show ?thesis
      unfolding split using Cons.IH[of "Suc i"]
      unfolding Cons pq find_line_loop_step by simp
  qed
qed

lemma find_line_loop_no_error: "find_line_loop 5 x y i ps \<noteq> Inl e"
proof (induction ps arbitrary: i)
  case Nil
  show ?case by simp
next
  case (Cons p ps)
  show ?case
  proof (cases ps)
    case Nil
    then show ?thesis by (cases p) simp
  next
    case (Cons q rest)
    obtain x1 y1 x2 y2 where pq: "p = (x1, y1)" "q = (x2, y2)" by (cases p, cases q) auto
    show ?thesis
      using Cons.IH[of "Suc i"] unfolding Cons pq find_line_loop_step by simp
  qed
qed

lemma find_line_at_position_Some_iff:
  "find_line_at_position ps x y = Inr (Some k) \<longleftrightarrow>
     segment_hit ps x y k \<and> (\<forall>j<k. \<not> segment_hit ps x y j)"
proof (cases "length ps < 2")
  case True
  then show ?thesis by (simp add: find_line_at_position_def segment_hit_short)
next
  case False
  then show ?thesis
    by (simp add: find_line_at_position_def find_line_loop_Some_iff)
qed

lemma find_line_at_position_None_iff:
  "find_line_at_position ps x y = Inr None \<longleftrightarrow> (\<forall>k. \<not> segment_hit ps x y k)"
proof (cases "length ps < 2")
  case True
  then show ?thesis by (simp add: find_line_at_position_def segment_hit_short)
next
  case False
  then show ?thesis
    by (simp add: find_line_at_position_def find_line_loop_None_iff)
qed

lemma find_line_at_position_no_error: "find_line_at_position ps x y \<noteq> Inl e"
  by (simp add: find_line_at_position_def find_line_loop_no_error)

section \<open>Evaluating the distance\<close>

text \<open>
  The interior branch of \<^verbatim>\<open>point_to_line_distance\<close>, one rounding after the other: the
  quotient, the two products, the closest point, the two differences, their squares, the sum
  and the root.
\<close>

lemma point_to_line_distance_steps:
  assumes "\<not> (x1 = x2 \<and> y1 = y2)"
    and "fl (real_of_int ((px - x1) * (x2 - x1) + (py - y1) * (y2 - y1))
             / real_of_int ((x2 - x1)\<^sup>2 + (y2 - y1)\<^sup>2)) = q"
    and "0 < q" "q < 1"
    and "fl (q * fl (real_of_int (x2 - x1))) = mx"
    and "fl (q * fl (real_of_int (y2 - y1))) = my"
    and "fl (fl (real_of_int x1) + mx) = cx"
    and "fl (fl (real_of_int y1) + my) = cy"
    and "fl (fl (real_of_int px) - cx) = dx"
    and "fl (fl (real_of_int py) - cy) = dy"
    and "fl (dx * dx) = sx"
    and "fl (dy * dy) = sy"
    and "fl (sx + sy) = s"
  shows "point_to_line_distance px py x1 y1 x2 y2 = Inr (fl (sqrt s))"
  unfolding point_to_line_distance_proper[OF assms(1)] assms(2) clamp_mid[OF assms(3,4)] Let_def
  using assms(5-) by (simp add: py_pow_half_def)



lemma distance_50_50_to_first:
  "point_to_line_distance 50 50 0 0 100 0 = Inr (50)"
proof -
  have q_arg: "real_of_int ((50 - 0) * (100 - 0) + (50 - 0) * (0 - 0)) / real_of_int ((100 - 0)\<^sup>2 + (0 - 0)\<^sup>2) = 1 / 2"
    by (simp add: fl_numeral fl_neg_numeral fl_0 fl_1)
  have q_fl: "fl (1 / 2) = real_of_int (4503599627370496) / 2 ^ 53"
    by (rule fl_round_nat) simp_all
  have q: "fl (real_of_int ((50 - 0) * (100 - 0) + (50 - 0) * (0 - 0)) / real_of_int ((100 - 0)\<^sup>2 + (0 - 0)\<^sup>2)) = real_of_int (4503599627370496) / 2 ^ 53"
    unfolding q_arg by (rule q_fl)
  have mx_arg: "(real_of_int (4503599627370496) / 2 ^ 53) * fl (real_of_int (100 - 0)) = 50"
    by (simp add: fl_numeral fl_neg_numeral fl_0 fl_1)
  have mx_fl: "fl (50) = real_of_int (7036874417766400) / 2 ^ 47"
    by (rule fl_round_nat) simp_all
  have mx: "fl ((real_of_int (4503599627370496) / 2 ^ 53) * fl (real_of_int (100 - 0))) = real_of_int (7036874417766400) / 2 ^ 47"
    unfolding mx_arg by (rule mx_fl)
  have my_arg: "(real_of_int (4503599627370496) / 2 ^ 53) * fl (real_of_int (0 - 0)) = 0"
    by (simp add: fl_numeral fl_neg_numeral fl_0 fl_1)
  have my_fl: "fl (0) = (0::real)"
    by (simp add: fl_0)
  have my: "fl ((real_of_int (4503599627370496) / 2 ^ 53) * fl (real_of_int (0 - 0))) = (0::real)"
    unfolding my_arg by (rule my_fl)
  have cx_arg: "fl (real_of_int 0) + (real_of_int (7036874417766400) / 2 ^ 47) = 50"
    by (simp add: fl_numeral fl_neg_numeral fl_0 fl_1)
  have cx_fl: "fl (50) = real_of_int (7036874417766400) / 2 ^ 47"
    by (rule fl_round_nat) simp_all
  have cx: "fl (fl (real_of_int 0) + (real_of_int (7036874417766400) / 2 ^ 47)) = real_of_int (7036874417766400) / 2 ^ 47"
    unfolding cx_arg by (rule cx_fl)
  have cy_arg: "fl (real_of_int 0) + (0::real) = 0"
    by (simp add: fl_numeral fl_neg_numeral fl_0 fl_1)
  have cy_fl: "fl (0) = (0::real)"
    by (simp add: fl_0)
  have cy: "fl (fl (real_of_int 0) + (0::real)) = (0::real)"
    unfolding cy_arg by (rule cy_fl)
  have dx_arg: "fl (real_of_int 50) - (real_of_int (7036874417766400) / 2 ^ 47) = 0"
    by (simp add: fl_numeral fl_neg_numeral fl_0 fl_1)
  have dx_fl: "fl (0) = (0::real)"
    by (simp add: fl_0)
  have dx: "fl (fl (real_of_int 50) - (real_of_int (7036874417766400) / 2 ^ 47)) = (0::real)"
    unfolding dx_arg by (rule dx_fl)
  have dy_arg: "fl (real_of_int 50) - (0::real) = 50"
    by (simp add: fl_numeral fl_neg_numeral fl_0 fl_1)
  have dy_fl: "fl (50) = real_of_int (7036874417766400) / 2 ^ 47"
    by (rule fl_round_nat) simp_all
  have dy: "fl (fl (real_of_int 50) - (0::real)) = real_of_int (7036874417766400) / 2 ^ 47"
    unfolding dy_arg by (rule dy_fl)
  have sx_arg: "(0::real) * (0::real) = 0"
    by (simp add: fl_numeral fl_neg_numeral fl_0 fl_1)
  have sx_fl: "fl (0) = (0::real)"
    by (simp add: fl_0)
  have sx: "fl ((0::real) * (0::real)) = (0::real)"
    unfolding sx_arg by (rule sx_fl)
  have sy_arg: "(real_of_int (7036874417766400) / 2 ^ 47) * (real_of_int (7036874417766400) / 2 ^ 47) = 2500"
    by (simp add: fl_numeral fl_neg_numeral fl_0 fl_1)
  have sy_fl: "fl (2500) = real_of_int (5497558138880000) / 2 ^ 41"
    by (rule fl_round_nat) simp_all
  have sy: "fl ((real_of_int (7036874417766400) / 2 ^ 47) * (real_of_int (7036874417766400) / 2 ^ 47)) = real_of_int (5497558138880000) / 2 ^ 41"
    unfolding sy_arg by (rule sy_fl)
  have s_arg: "(0::real) + (real_of_int (5497558138880000) / 2 ^ 41) = 2500"
    by (simp add: fl_numeral fl_neg_numeral fl_0 fl_1)
  have s_fl: "fl (2500) = real_of_int (5497558138880000) / 2 ^ 41"
    by (rule fl_round_nat) simp_all
  have s: "fl ((0::real) + (real_of_int (5497558138880000) / 2 ^ 41)) = real_of_int (5497558138880000) / 2 ^ 41"
    unfolding s_arg by (rule s_fl)
  have steps: "point_to_line_distance 50 50 0 0 100 0 = Inr (fl (sqrt (real_of_int (5497558138880000) / 2 ^ 41)))"
    by (rule point_to_line_distance_steps[OF _ q _ _ mx my cx cy dx dy sx sy s]) simp_all
  have root: "sqrt (real_of_int (5497558138880000) / 2 ^ 41) = 50"
    by (rule real_sqrt_unique) (simp_all add: power2_eq_square)
  have root_fl: "fl (50) = real_of_int (7036874417766400) / 2 ^ 47"
    by (rule fl_round_nat) simp_all
  show ?thesis unfolding steps root root_fl by simp
qed

lemma distance_50_3_to_first:
  "point_to_line_distance 50 3 0 0 100 0 = Inr (3)"
proof -
  have q_arg: "real_of_int ((50 - 0) * (100 - 0) + (3 - 0) * (0 - 0)) / real_of_int ((100 - 0)\<^sup>2 + (0 - 0)\<^sup>2) = 1 / 2"
    by (simp add: fl_numeral fl_neg_numeral fl_0 fl_1)
  have q_fl: "fl (1 / 2) = real_of_int (4503599627370496) / 2 ^ 53"
    by (rule fl_round_nat) simp_all
  have q: "fl (real_of_int ((50 - 0) * (100 - 0) + (3 - 0) * (0 - 0)) / real_of_int ((100 - 0)\<^sup>2 + (0 - 0)\<^sup>2)) = real_of_int (4503599627370496) / 2 ^ 53"
    unfolding q_arg by (rule q_fl)
  have mx_arg: "(real_of_int (4503599627370496) / 2 ^ 53) * fl (real_of_int (100 - 0)) = 50"
    by (simp add: fl_numeral fl_neg_numeral fl_0 fl_1)
  have mx_fl: "fl (50) = real_of_int (7036874417766400) / 2 ^ 47"
    by (rule fl_round_nat) simp_all
  have mx: "fl ((real_of_int (4503599627370496) / 2 ^ 53) * fl (real_of_int (100 - 0))) = real_of_int (7036874417766400) / 2 ^ 47"
    unfolding mx_arg by (rule mx_fl)
  have my_arg: "(real_of_int (4503599627370496) / 2 ^ 53) * fl (real_of_int (0 - 0)) = 0"
    by (simp add: fl_numeral fl_neg_numeral fl_0 fl_1)
  have my_fl: "fl (0) = (0::real)"
    by (simp add: fl_0)
  have my: "fl ((real_of_int (4503599627370496) / 2 ^ 53) * fl (real_of_int (0 - 0))) = (0::real)"
    unfolding my_arg by (rule my_fl)
  have cx_arg: "fl (real_of_int 0) + (real_of_int (7036874417766400) / 2 ^ 47) = 50"
    by (simp add: fl_numeral fl_neg_numeral fl_0 fl_1)
  have cx_fl: "fl (50) = real_of_int (7036874417766400) / 2 ^ 47"
    by (rule fl_round_nat) simp_all
  have cx: "fl (fl (real_of_int 0) + (real_of_int (7036874417766400) / 2 ^ 47)) = real_of_int (7036874417766400) / 2 ^ 47"
    unfolding cx_arg by (rule cx_fl)
  have cy_arg: "fl (real_of_int 0) + (0::real) = 0"
    by (simp add: fl_numeral fl_neg_numeral fl_0 fl_1)
  have cy_fl: "fl (0) = (0::real)"
    by (simp add: fl_0)
  have cy: "fl (fl (real_of_int 0) + (0::real)) = (0::real)"
    unfolding cy_arg by (rule cy_fl)
  have dx_arg: "fl (real_of_int 50) - (real_of_int (7036874417766400) / 2 ^ 47) = 0"
    by (simp add: fl_numeral fl_neg_numeral fl_0 fl_1)
  have dx_fl: "fl (0) = (0::real)"
    by (simp add: fl_0)
  have dx: "fl (fl (real_of_int 50) - (real_of_int (7036874417766400) / 2 ^ 47)) = (0::real)"
    unfolding dx_arg by (rule dx_fl)
  have dy_arg: "fl (real_of_int 3) - (0::real) = 3"
    by (simp add: fl_numeral fl_neg_numeral fl_0 fl_1)
  have dy_fl: "fl (3) = real_of_int (6755399441055744) / 2 ^ 51"
    by (rule fl_round_nat) simp_all
  have dy: "fl (fl (real_of_int 3) - (0::real)) = real_of_int (6755399441055744) / 2 ^ 51"
    unfolding dy_arg by (rule dy_fl)
  have sx_arg: "(0::real) * (0::real) = 0"
    by (simp add: fl_numeral fl_neg_numeral fl_0 fl_1)
  have sx_fl: "fl (0) = (0::real)"
    by (simp add: fl_0)
  have sx: "fl ((0::real) * (0::real)) = (0::real)"
    unfolding sx_arg by (rule sx_fl)
  have sy_arg: "(real_of_int (6755399441055744) / 2 ^ 51) * (real_of_int (6755399441055744) / 2 ^ 51) = 9"
    by (simp add: fl_numeral fl_neg_numeral fl_0 fl_1)
  have sy_fl: "fl (9) = real_of_int (5066549580791808) / 2 ^ 49"
    by (rule fl_round_nat) simp_all
  have sy: "fl ((real_of_int (6755399441055744) / 2 ^ 51) * (real_of_int (6755399441055744) / 2 ^ 51)) = real_of_int (5066549580791808) / 2 ^ 49"
    unfolding sy_arg by (rule sy_fl)
  have s_arg: "(0::real) + (real_of_int (5066549580791808) / 2 ^ 49) = 9"
    by (simp add: fl_numeral fl_neg_numeral fl_0 fl_1)
  have s_fl: "fl (9) = real_of_int (5066549580791808) / 2 ^ 49"
    by (rule fl_round_nat) simp_all
  have s: "fl ((0::real) + (real_of_int (5066549580791808) / 2 ^ 49)) = real_of_int (5066549580791808) / 2 ^ 49"
    unfolding s_arg by (rule s_fl)
  have steps: "point_to_line_distance 50 3 0 0 100 0 = Inr (fl (sqrt (real_of_int (5066549580791808) / 2 ^ 49)))"
    by (rule point_to_line_distance_steps[OF _ q _ _ mx my cx cy dx dy sx sy s]) simp_all
  have root: "sqrt (real_of_int (5066549580791808) / 2 ^ 49) = 3"
    by (rule real_sqrt_unique) (simp_all add: power2_eq_square)
  have root_fl: "fl (3) = real_of_int (6755399441055744) / 2 ^ 51"
    by (rule fl_round_nat) simp_all
  show ?thesis unfolding steps root root_fl by simp
qed

lemma distance_50_3_to_third:
  "point_to_line_distance 50 3 100 4 0 4 = Inr (1)"
proof -
  have q_arg: "real_of_int ((50 - 100) * (0 - 100) + (3 - 4) * (4 - 4)) / real_of_int ((0 - 100)\<^sup>2 + (4 - 4)\<^sup>2) = 1 / 2"
    by (simp add: fl_numeral fl_neg_numeral fl_0 fl_1)
  have q_fl: "fl (1 / 2) = real_of_int (4503599627370496) / 2 ^ 53"
    by (rule fl_round_nat) simp_all
  have q: "fl (real_of_int ((50 - 100) * (0 - 100) + (3 - 4) * (4 - 4)) / real_of_int ((0 - 100)\<^sup>2 + (4 - 4)\<^sup>2)) = real_of_int (4503599627370496) / 2 ^ 53"
    unfolding q_arg by (rule q_fl)
  have mx_arg: "(real_of_int (4503599627370496) / 2 ^ 53) * fl (real_of_int (0 - 100)) = - 50"
    by (simp add: fl_numeral fl_neg_numeral fl_0 fl_1)
  have mx_fl: "fl (- 50) = real_of_int (- 7036874417766400) / 2 ^ 47"
    by (rule fl_round_nat) simp_all
  have mx: "fl ((real_of_int (4503599627370496) / 2 ^ 53) * fl (real_of_int (0 - 100))) = real_of_int (- 7036874417766400) / 2 ^ 47"
    unfolding mx_arg by (rule mx_fl)
  have my_arg: "(real_of_int (4503599627370496) / 2 ^ 53) * fl (real_of_int (4 - 4)) = 0"
    by (simp add: fl_numeral fl_neg_numeral fl_0 fl_1)
  have my_fl: "fl (0) = (0::real)"
    by (simp add: fl_0)
  have my: "fl ((real_of_int (4503599627370496) / 2 ^ 53) * fl (real_of_int (4 - 4))) = (0::real)"
    unfolding my_arg by (rule my_fl)
  have cx_arg: "fl (real_of_int 100) + (real_of_int (- 7036874417766400) / 2 ^ 47) = 50"
    by (simp add: fl_numeral fl_neg_numeral fl_0 fl_1)
  have cx_fl: "fl (50) = real_of_int (7036874417766400) / 2 ^ 47"
    by (rule fl_round_nat) simp_all
  have cx: "fl (fl (real_of_int 100) + (real_of_int (- 7036874417766400) / 2 ^ 47)) = real_of_int (7036874417766400) / 2 ^ 47"
    unfolding cx_arg by (rule cx_fl)
  have cy_arg: "fl (real_of_int 4) + (0::real) = 4"
    by (simp add: fl_numeral fl_neg_numeral fl_0 fl_1)
  have cy_fl: "fl (4) = real_of_int (4503599627370496) / 2 ^ 50"
    by (rule fl_round_nat) simp_all
  have cy: "fl (fl (real_of_int 4) + (0::real)) = real_of_int (4503599627370496) / 2 ^ 50"
    unfolding cy_arg by (rule cy_fl)
  have dx_arg: "fl (real_of_int 50) - (real_of_int (7036874417766400) / 2 ^ 47) = 0"
    by (simp add: fl_numeral fl_neg_numeral fl_0 fl_1)
  have dx_fl: "fl (0) = (0::real)"
    by (simp add: fl_0)
  have dx: "fl (fl (real_of_int 50) - (real_of_int (7036874417766400) / 2 ^ 47)) = (0::real)"
    unfolding dx_arg by (rule dx_fl)
  have dy_arg: "fl (real_of_int 3) - (real_of_int (4503599627370496) / 2 ^ 50) = - 1"
    by (simp add: fl_numeral fl_neg_numeral fl_0 fl_1)
  have dy_fl: "fl (- 1) = real_of_int (- 4503599627370496) / 2 ^ 52"
    by (rule fl_round_nat) simp_all
  have dy: "fl (fl (real_of_int 3) - (real_of_int (4503599627370496) / 2 ^ 50)) = real_of_int (- 4503599627370496) / 2 ^ 52"
    unfolding dy_arg by (rule dy_fl)
  have sx_arg: "(0::real) * (0::real) = 0"
    by (simp add: fl_numeral fl_neg_numeral fl_0 fl_1)
  have sx_fl: "fl (0) = (0::real)"
    by (simp add: fl_0)
  have sx: "fl ((0::real) * (0::real)) = (0::real)"
    unfolding sx_arg by (rule sx_fl)
  have sy_arg: "(real_of_int (- 4503599627370496) / 2 ^ 52) * (real_of_int (- 4503599627370496) / 2 ^ 52) = 1"
    by (simp add: fl_numeral fl_neg_numeral fl_0 fl_1)
  have sy_fl: "fl (1) = real_of_int (4503599627370496) / 2 ^ 52"
    by (rule fl_round_nat) simp_all
  have sy: "fl ((real_of_int (- 4503599627370496) / 2 ^ 52) * (real_of_int (- 4503599627370496) / 2 ^ 52)) = real_of_int (4503599627370496) / 2 ^ 52"
    unfolding sy_arg by (rule sy_fl)
  have s_arg: "(0::real) + (real_of_int (4503599627370496) / 2 ^ 52) = 1"
    by (simp add: fl_numeral fl_neg_numeral fl_0 fl_1)
  have s_fl: "fl (1) = real_of_int (4503599627370496) / 2 ^ 52"
    by (rule fl_round_nat) simp_all
  have s: "fl ((0::real) + (real_of_int (4503599627370496) / 2 ^ 52)) = real_of_int (4503599627370496) / 2 ^ 52"
    unfolding s_arg by (rule s_fl)
  have steps: "point_to_line_distance 50 3 100 4 0 4 = Inr (fl (sqrt (real_of_int (4503599627370496) / 2 ^ 52)))"
    by (rule point_to_line_distance_steps[OF _ q _ _ mx my cx cy dx dy sx sy s]) simp_all
  have root: "sqrt (real_of_int (4503599627370496) / 2 ^ 52) = 1"
    by (rule real_sqrt_unique) (simp_all add: power2_eq_square)
  have root_fl: "fl (1) = real_of_int (4503599627370496) / 2 ^ 52"
    by (rule fl_round_nat) simp_all
  show ?thesis unfolding steps root root_fl by simp
qed

lemma distance_50_50_to_third:
  "point_to_line_distance 50 50 100 4 0 4 = Inr (46)"
proof -
  have q_arg: "real_of_int ((50 - 100) * (0 - 100) + (50 - 4) * (4 - 4)) / real_of_int ((0 - 100)\<^sup>2 + (4 - 4)\<^sup>2) = 1 / 2"
    by (simp add: fl_numeral fl_neg_numeral fl_0 fl_1)
  have q_fl: "fl (1 / 2) = real_of_int (4503599627370496) / 2 ^ 53"
    by (rule fl_round_nat) simp_all
  have q: "fl (real_of_int ((50 - 100) * (0 - 100) + (50 - 4) * (4 - 4)) / real_of_int ((0 - 100)\<^sup>2 + (4 - 4)\<^sup>2)) = real_of_int (4503599627370496) / 2 ^ 53"
    unfolding q_arg by (rule q_fl)
  have mx_arg: "(real_of_int (4503599627370496) / 2 ^ 53) * fl (real_of_int (0 - 100)) = - 50"
    by (simp add: fl_numeral fl_neg_numeral fl_0 fl_1)
  have mx_fl: "fl (- 50) = real_of_int (- 7036874417766400) / 2 ^ 47"
    by (rule fl_round_nat) simp_all
  have mx: "fl ((real_of_int (4503599627370496) / 2 ^ 53) * fl (real_of_int (0 - 100))) = real_of_int (- 7036874417766400) / 2 ^ 47"
    unfolding mx_arg by (rule mx_fl)
  have my_arg: "(real_of_int (4503599627370496) / 2 ^ 53) * fl (real_of_int (4 - 4)) = 0"
    by (simp add: fl_numeral fl_neg_numeral fl_0 fl_1)
  have my_fl: "fl (0) = (0::real)"
    by (simp add: fl_0)
  have my: "fl ((real_of_int (4503599627370496) / 2 ^ 53) * fl (real_of_int (4 - 4))) = (0::real)"
    unfolding my_arg by (rule my_fl)
  have cx_arg: "fl (real_of_int 100) + (real_of_int (- 7036874417766400) / 2 ^ 47) = 50"
    by (simp add: fl_numeral fl_neg_numeral fl_0 fl_1)
  have cx_fl: "fl (50) = real_of_int (7036874417766400) / 2 ^ 47"
    by (rule fl_round_nat) simp_all
  have cx: "fl (fl (real_of_int 100) + (real_of_int (- 7036874417766400) / 2 ^ 47)) = real_of_int (7036874417766400) / 2 ^ 47"
    unfolding cx_arg by (rule cx_fl)
  have cy_arg: "fl (real_of_int 4) + (0::real) = 4"
    by (simp add: fl_numeral fl_neg_numeral fl_0 fl_1)
  have cy_fl: "fl (4) = real_of_int (4503599627370496) / 2 ^ 50"
    by (rule fl_round_nat) simp_all
  have cy: "fl (fl (real_of_int 4) + (0::real)) = real_of_int (4503599627370496) / 2 ^ 50"
    unfolding cy_arg by (rule cy_fl)
  have dx_arg: "fl (real_of_int 50) - (real_of_int (7036874417766400) / 2 ^ 47) = 0"
    by (simp add: fl_numeral fl_neg_numeral fl_0 fl_1)
  have dx_fl: "fl (0) = (0::real)"
    by (simp add: fl_0)
  have dx: "fl (fl (real_of_int 50) - (real_of_int (7036874417766400) / 2 ^ 47)) = (0::real)"
    unfolding dx_arg by (rule dx_fl)
  have dy_arg: "fl (real_of_int 50) - (real_of_int (4503599627370496) / 2 ^ 50) = 46"
    by (simp add: fl_numeral fl_neg_numeral fl_0 fl_1)
  have dy_fl: "fl (46) = real_of_int (6473924464345088) / 2 ^ 47"
    by (rule fl_round_nat) simp_all
  have dy: "fl (fl (real_of_int 50) - (real_of_int (4503599627370496) / 2 ^ 50)) = real_of_int (6473924464345088) / 2 ^ 47"
    unfolding dy_arg by (rule dy_fl)
  have sx_arg: "(0::real) * (0::real) = 0"
    by (simp add: fl_numeral fl_neg_numeral fl_0 fl_1)
  have sx_fl: "fl (0) = (0::real)"
    by (simp add: fl_0)
  have sx: "fl ((0::real) * (0::real)) = (0::real)"
    unfolding sx_arg by (rule sx_fl)
  have sy_arg: "(real_of_int (6473924464345088) / 2 ^ 47) * (real_of_int (6473924464345088) / 2 ^ 47) = 2116"
    by (simp add: fl_numeral fl_neg_numeral fl_0 fl_1)
  have sy_fl: "fl (2116) = real_of_int (4653133208748032) / 2 ^ 41"
    by (rule fl_round_nat) simp_all
  have sy: "fl ((real_of_int (6473924464345088) / 2 ^ 47) * (real_of_int (6473924464345088) / 2 ^ 47)) = real_of_int (4653133208748032) / 2 ^ 41"
    unfolding sy_arg by (rule sy_fl)
  have s_arg: "(0::real) + (real_of_int (4653133208748032) / 2 ^ 41) = 2116"
    by (simp add: fl_numeral fl_neg_numeral fl_0 fl_1)
  have s_fl: "fl (2116) = real_of_int (4653133208748032) / 2 ^ 41"
    by (rule fl_round_nat) simp_all
  have s: "fl ((0::real) + (real_of_int (4653133208748032) / 2 ^ 41)) = real_of_int (4653133208748032) / 2 ^ 41"
    unfolding s_arg by (rule s_fl)
  have steps: "point_to_line_distance 50 50 100 4 0 4 = Inr (fl (sqrt (real_of_int (4653133208748032) / 2 ^ 41)))"
    by (rule point_to_line_distance_steps[OF _ q _ _ mx my cx cy dx dy sx sy s]) simp_all
  have root: "sqrt (real_of_int (4653133208748032) / 2 ^ 41) = 46"
    by (rule real_sqrt_unique) (simp_all add: power2_eq_square)
  have root_fl: "fl (46) = real_of_int (6473924464345088) / 2 ^ 47"
    by (rule fl_round_nat) simp_all
  show ?thesis unfolding steps root root_fl by simp
qed

lemma distance_200_163_rounded:
  "point_to_line_distance 200 163 200 150 215 186 = Inr (real_of_int 5629499534213122 / 2 ^ 50)"
proof -
  have q_arg: "real_of_int ((200 - 200) * (215 - 200) + (163 - 150) * (186 - 150)) / real_of_int ((215 - 200)\<^sup>2 + (186 - 150)\<^sup>2) = 4 / 13"
    by (simp add: fl_numeral fl_neg_numeral fl_0 fl_1)
  have q_fl: "fl (4 / 13) = real_of_int (5542891849071380) / 2 ^ 54"
    by (rule fl_round_nat) simp_all
  have q: "fl (real_of_int ((200 - 200) * (215 - 200) + (163 - 150) * (186 - 150)) / real_of_int ((215 - 200)\<^sup>2 + (186 - 150)\<^sup>2)) = real_of_int (5542891849071380) / 2 ^ 54"
    unfolding q_arg by (rule q_fl)
  have mx_arg: "(real_of_int (5542891849071380) / 2 ^ 54) * fl (real_of_int (215 - 200)) = 20785844434017675 / 4503599627370496"
    by (simp add: fl_numeral fl_neg_numeral fl_0 fl_1)
  have mx_fl: "fl (20785844434017675 / 4503599627370496) = real_of_int (5196461108504419) / 2 ^ 50"
    by (rule fl_round_nat) simp_all
  have mx: "fl ((real_of_int (5542891849071380) / 2 ^ 54) * fl (real_of_int (215 - 200))) = real_of_int (5196461108504419) / 2 ^ 50"
    unfolding mx_arg by (rule mx_fl)
  have my_arg: "(real_of_int (5542891849071380) / 2 ^ 54) * fl (real_of_int (186 - 150)) = 12471506660410605 / 1125899906842624"
    by (simp add: fl_numeral fl_neg_numeral fl_0 fl_1)
  have my_fl: "fl (12471506660410605 / 1125899906842624) = real_of_int (6235753330205302) / 2 ^ 49"
    by (rule fl_tie_nat) simp_all
  have my: "fl ((real_of_int (5542891849071380) / 2 ^ 54) * fl (real_of_int (186 - 150))) = real_of_int (6235753330205302) / 2 ^ 49"
    unfolding my_arg by (rule my_fl)
  have cx_arg: "fl (real_of_int 200) + (real_of_int (5196461108504419) / 2 ^ 50) = 230376442477029219 / 1125899906842624"
    by (simp add: fl_numeral fl_neg_numeral fl_0 fl_1)
  have cx_fl: "fl (230376442477029219 / 1125899906842624) = real_of_int (7199263827407163) / 2 ^ 45"
    by (rule fl_round_nat) simp_all
  have cx: "fl (fl (real_of_int 200) + (real_of_int (5196461108504419) / 2 ^ 50)) = real_of_int (7199263827407163) / 2 ^ 45"
    unfolding cx_arg by (rule cx_fl)
  have cy_arg: "fl (real_of_int 150) + (real_of_int (6235753330205302) / 2 ^ 49) = 45339123171701051 / 281474976710656"
    by (simp add: fl_numeral fl_neg_numeral fl_0 fl_1)
  have cy_fl: "fl (45339123171701051 / 281474976710656) = real_of_int (5667390396462631) / 2 ^ 45"
    by (rule fl_round_nat) simp_all
  have cy: "fl (fl (real_of_int 150) + (real_of_int (6235753330205302) / 2 ^ 49)) = real_of_int (5667390396462631) / 2 ^ 45"
    unfolding cy_arg by (rule cy_fl)
  have dx_arg: "fl (real_of_int 200) - (real_of_int (7199263827407163) / 2 ^ 45) = - (162389409640763 / 35184372088832)"
    by (simp add: fl_numeral fl_neg_numeral fl_0 fl_1)
  have dx_fl: "fl (- (162389409640763 / 35184372088832)) = real_of_int (- 5196461108504416) / 2 ^ 50"
    by (rule fl_round_nat) simp_all
  have dx: "fl (fl (real_of_int 200) - (real_of_int (7199263827407163) / 2 ^ 45)) = real_of_int (- 5196461108504416) / 2 ^ 50"
    unfolding dx_arg by (rule dx_fl)
  have dy_arg: "fl (real_of_int 163) - (real_of_int (5667390396462631) / 2 ^ 45) = 67662254016985 / 35184372088832"
    by (simp add: fl_numeral fl_neg_numeral fl_0 fl_1)
  have dy_fl: "fl (67662254016985 / 35184372088832) = real_of_int (8660768514174080) / 2 ^ 52"
    by (rule fl_round_nat) simp_all
  have dy: "fl (fl (real_of_int 163) - (real_of_int (5667390396462631) / 2 ^ 45)) = real_of_int (8660768514174080) / 2 ^ 52"
    unfolding dy_arg by (rule dy_fl)
  have sx_arg: "(real_of_int (- 5196461108504416) / 2 ^ 50) * (real_of_int (- 5196461108504416) / 2 ^ 50) = 26370320363475531168711222169 / 1237940039285380274899124224"
    by (simp add: fl_numeral fl_neg_numeral fl_0 fl_1)
  have sx_fl: "fl (26370320363475531168711222169 / 1237940039285380274899124224) = real_of_int (5995916663658939) / 2 ^ 48"
    by (rule fl_round_nat) simp_all
  have sx: "fl ((real_of_int (- 5196461108504416) / 2 ^ 50) * (real_of_int (- 5196461108504416) / 2 ^ 50)) = real_of_int (5995916663658939) / 2 ^ 48"
    unfolding sx_arg by (rule sx_fl)
  have sy_arg: "(real_of_int (8660768514174080) / 2 ^ 52) * (real_of_int (8660768514174080) / 2 ^ 52) = 4578180618659002768668490225 / 1237940039285380274899124224"
    by (simp add: fl_numeral fl_neg_numeral fl_0 fl_1)
  have sy_fl: "fl (4578180618659002768668490225 / 1237940039285380274899124224) = real_of_int (8327662032859740) / 2 ^ 51"
    by (rule fl_round_nat) simp_all
  have sy: "fl ((real_of_int (8660768514174080) / 2 ^ 52) * (real_of_int (8660768514174080) / 2 ^ 52)) = real_of_int (8327662032859740) / 2 ^ 51"
    unfolding sy_arg by (rule sy_fl)
  have s_arg: "(real_of_int (5995916663658939) / 2 ^ 48) + (real_of_int (8327662032859740) / 2 ^ 51) = 14073748835532813 / 562949953421312"
    by (simp add: fl_numeral fl_neg_numeral fl_0 fl_1)
  have s_fl: "fl (14073748835532813 / 562949953421312) = real_of_int (7036874417766406) / 2 ^ 48"
    by (rule fl_tie_nat) simp_all
  have s: "fl ((real_of_int (5995916663658939) / 2 ^ 48) + (real_of_int (8327662032859740) / 2 ^ 51)) = real_of_int (7036874417766406) / 2 ^ 48"
    unfolding s_arg by (rule s_fl)
  have steps: "point_to_line_distance 200 163 200 150 215 186 = Inr (fl (sqrt (real_of_int (7036874417766406) / 2 ^ 48)))"
    by (rule point_to_line_distance_steps[OF _ q _ _ mx my cx cy dx dy sx sy s]) simp_all
  have root_fl: "fl (sqrt (real_of_int (7036874417766406) / 2 ^ 48)) = real_of_int 5629499534213122 / 2 ^ 50"
    by (rule fl_sqrt_round) (simp_all add: power2_eq_square)
  show ?thesis unfolding steps root_fl ..
qed


lemma distance_50_50_to_second:
  "point_to_line_distance 50 50 100 0 100 4 = Inr (float_distance (50, 50) (100, 4))"
  "\<not> float_distance (50, 50) (100, 4) \<le> 5"
proof -
  show "point_to_line_distance 50 50 100 0 100 4 = Inr (float_distance (50, 50) (100, 4))"
    by (rule past_end_distance) simp_all
  show "\<not> float_distance (50, 50) (100, 4) \<le> 5"
    by (simp add: float_distance_def py_pow_half_le_5)
qed

section \<open>The distance from a point to a segment\<close>

text \<open>
  Claim C9. \<^verbatim>\<open>point_to_line_distance\<close> is total: for every input it returns a distance
  (which is not negative) and never raises. The divisor \<^verbatim>\<open>line_length_squared\<close> is zero
  exactly when the two end points are equal, which is the case the equality test at the top
  of the function takes away from the division.
\<close>

theorem point_to_line_distance_total:
  "(\<exists>d. point_to_line_distance px py x1 y1 x2 y2 = Inr d \<and> 0 \<le> d)
   \<and> (py_truediv ((px - x1) * (x2 - x1) + (py - y1) * (y2 - y1))
         ((x2 - x1)\<^sup>2 + (y2 - y1)\<^sup>2) = Inl ZeroDivisionError
       \<longleftrightarrow> x1 = x2 \<and> y1 = y2)"
proof (intro conjI)
  obtain d where d: "point_to_line_distance px py x1 y1 x2 y2 = Inr d"
    using point_to_line_distance_no_error[of px py x1 y1 x2 y2]
    by (cases "point_to_line_distance px py x1 y1 x2 y2") auto
  with point_to_line_distance_nonneg[OF d]
  show "\<exists>d. point_to_line_distance px py x1 y1 x2 y2 = Inr d \<and> 0 \<le> d" by blast
next
  show "py_truediv ((px - x1) * (x2 - x1) + (py - y1) * (y2 - y1))
         ((x2 - x1)\<^sup>2 + (y2 - y1)\<^sup>2) = Inl ZeroDivisionError
       \<longleftrightarrow> x1 = x2 \<and> y1 = y2"
    by (auto simp add: py_truediv_def sum_power2_eq_zero_iff)
qed






section \<open>The two hit tests\<close>

text \<open>
  Claim C2. Both hit tests return the first match in index order.
  \<^verbatim>\<open>find_point_at_position\<close> returns index \<open>i\<close> exactly when point \<open>i\<close> lies within
  distance 8 of the target and no point of a lower index does, and \<^verbatim>\<open>None\<close> exactly when
  no point does. \<^verbatim>\<open>find_line_at_position\<close> returns \<open>k\<close> exactly when the distance that
  \<^verbatim>\<open>point_to_line_distance\<close> returns for segment \<open>k\<close> is at most 5 and for no segment of a
  lower index it is, and \<^verbatim>\<open>None\<close> exactly when it is for no segment; it never raises. How
  close a later candidate lies plays no part.
\<close>

theorem hit_tests_first_match:
  "(find_point_at_position ps x y = Some i \<longleftrightarrow>
      point_hit ps x y i \<and> (\<forall>j<i. \<not> point_hit ps x y j))
   \<and> (find_point_at_position ps x y = None \<longleftrightarrow> (\<forall>i. \<not> point_hit ps x y i))
   \<and> (find_line_at_position ps x y = Inr (Some k) \<longleftrightarrow>
      segment_hit ps x y k \<and> (\<forall>j<k. \<not> segment_hit ps x y j))
   \<and> (find_line_at_position ps x y = Inr None \<longleftrightarrow> (\<forall>k. \<not> segment_hit ps x y k))"
  by (simp only: find_point_at_position_Some_iff find_point_at_position_None_iff
      find_line_at_position_Some_iff find_line_at_position_None_iff simp_thms)

lemma no_segment_hit_50_50:
  "\<not> segment_hit [(0, 0), (100, 0), (100, 4), (0, 4)] 50 50 k"
proof -
  consider "k = 0" | "k = Suc 0" | "k = Suc (Suc 0)" | "3 \<le> k" by linarith
  then show ?thesis
  proof cases
    case 1
    then show ?thesis
      by (simp add: segment_hit_first[OF distance_50_50_to_first])
  next
    case 2
    then show ?thesis
      by (simp add: segment_hit_Cons_Suc segment_hit_first[OF distance_50_50_to_second(1)]
          distance_50_50_to_second(2))
  next
    case 3
    then show ?thesis
      by (simp add: segment_hit_Cons_Suc segment_hit_first[OF distance_50_50_to_third])
  next
    case 4
    show ?thesis
    proof
      assume "segment_hit [(0, 0), (100, 0), (100, 4), (0, 4)] 50 50 k"
      from segment_hit_bound[OF this] 4 show False by simp
    qed
  qed
qed

lemma no_segment_hit_200_163: "\<not> segment_hit [(200, 150), (215, 186)] 200 163 k"
proof
  assume h: "segment_hit [(200, 150), (215, 186)] 200 163 k"
  from segment_hit_bound[OF h] have "k = 0" by simp
  with h show False
    by (simp add: segment_hit_first[OF distance_200_163_rounded])
qed

text \<open>
  The theorem at concrete inputs. Point 0 at distance 5 is returned although point 1 lies at
  distance 0; segment 0 at distance 3 is returned although segment 2 lies at distance 1;
  far from everything both tests return \<^verbatim>\<open>None\<close>. At \<open>(200, 163)\<close> the segment from
  \<open>(200, 150)\<close> to \<open>(215, 186)\<close> is not hit: the distance computed is the double next
  above \<open>5\<close>.
\<close>

theorem hit_tests_first_match_witness:
  "find_point_at_position [(0, 0), (5, 0)] 5 0 = Some 0
   \<and> euclidean_distance (5, 0) (5, 0) < euclidean_distance (0, 0) (5, 0)
   \<and> find_point_at_position [(0, 0), (5, 0)] 50 50 = None
   \<and> find_line_at_position [(0, 0), (100, 0), (100, 4), (0, 4)] 50 3 = Inr (Some 0)
   \<and> point_to_line_distance 50 3 0 0 100 0 = Inr 3
   \<and> point_to_line_distance 50 3 100 4 0 4 = Inr 1
   \<and> find_line_at_position [(0, 0), (100, 0), (100, 4), (0, 4)] 50 50 = Inr None
   \<and> find_line_at_position [(200, 150), (215, 186)] 200 163 = Inr None
   \<and> point_to_line_distance 200 163 200 150 215 186
       = Inr (real_of_int 5629499534213122 / 2 ^ 50)"
proof -
  have p0: "point_hit [(0, 0), (5, 0)] 5 0 0 \<and> (\<forall>j<0. \<not> point_hit [(0, 0), (5, 0)] 5 0 j)"
    by (simp add: point_hit_eval)
  have p1: "\<forall>i. \<not> point_hit [(0, 0), (5, 0)] 50 50 i"
    by (simp add: point_hit_eval less_Suc_eq nth_Cons')
  have s0: "segment_hit [(0, 0), (100, 0), (100, 4), (0, 4)] 50 3 0
      \<and> (\<forall>j<0. \<not> segment_hit [(0, 0), (100, 0), (100, 4), (0, 4)] 50 3 j)"
    by (simp add: segment_hit_first[OF distance_50_3_to_first])
  have s1: "\<forall>k. \<not> segment_hit [(0, 0), (100, 0), (100, 4), (0, 4)] 50 50 k"
    by (simp add: no_segment_hit_50_50)
  have s2: "\<forall>k. \<not> segment_hit [(200, 150), (215, 186)] 200 163 k"
    by (simp add: no_segment_hit_200_163)
  have d: "euclidean_distance (5, 0) (5, 0) < euclidean_distance (0, 0) (5, 0)"
    by (simp add: euclidean_distance_def)
  have l: "point_to_line_distance 50 3 0 0 100 0 = Inr 3"
    "point_to_line_distance 50 3 100 4 0 4 = Inr 1"
    using distance_50_3_to_first distance_50_3_to_third by simp_all
  show ?thesis
    using hit_tests_first_match[of "[(0, 0), (5, 0)]" 5 0 0 0]
      hit_tests_first_match[of "[(0, 0), (5, 0)]" 50 50 0 0]
      hit_tests_first_match[of "[(0, 0), (100, 0), (100, 4), (0, 4)]" 50 3 0 0]
      hit_tests_first_match[of "[(0, 0), (100, 0), (100, 4), (0, 4)]" 50 50 0 0]
      hit_tests_first_match[of "[(200, 150), (215, 186)]" 200 163 0 0]
      p0 p1 s0 s1 s2 d l distance_200_163_rounded
    by simp
qed

section \<open>Pointer down\<close>


lemmas str_eval = str_int_def str_nat.simps digit_char_def



section \<open>The drag sequence\<close>

lemma handle_all_append:
  "handle_all s (es @ fs) =
     (case handle_all s es of Inl err \<Rightarrow> Inl err | Inr s' \<Rightarrow> handle_all s' fs)"
  by (induction es arbitrary: s) (auto split: sum.splits)

lemma on_canvas_drag_dragging:
  assumes "dragging s" "drag_point_index s = Some i" "i < length (points s)"
  shows "\<exists>s'. on_canvas_drag s x y = Inr s' \<and> points s' = (points s)[i := (x, y)]
           \<and> dragging s' \<and> drag_point_index s' = Some i"
  using assms by (simp add: on_canvas_drag_def list_setitem_def)

lemma on_canvas_drag_idle: "\<not> dragging s \<Longrightarrow> on_canvas_drag s x y = Inr s"
  by (simp add: on_canvas_drag_def)

lemma on_canvas_release_dragging:
  assumes "dragging s" "drag_point_index s = Some i" "i < length (points s)"
  shows "\<exists>s'. on_canvas_release s x y = Inr s' \<and> points s' = (points s)[i := (x, y)]
           \<and> \<not> dragging s' \<and> drag_point_index s' = None"
  using assms by (simp add: on_canvas_release_def list_setitem_def)

lemma on_canvas_click_hit:
  assumes "find_point_at_position (points s) x y = Some i"
  shows "\<exists>s'. on_canvas_click s x y = Inr s' \<and> points s' = points s
           \<and> dragging s' \<and> drag_point_index s' = Some i"
  using assms by (simp add: on_canvas_click_def)

lemma drag_moves:
  assumes "dragging s" "drag_point_index s = Some i" "i < length (points s)"
  shows "\<exists>s' p. handle_all s (map (\<lambda>(a, b). B1_Motion a b) moves) = Inr s'
           \<and> dragging s' \<and> drag_point_index s' = Some i
           \<and> points s' = (points s)[i := p]"
  using assms
proof (induction moves arbitrary: s)
  case Nil
  have "points s = (points s)[i := points s ! i]" by simp
  with Nil show ?case
    by (intro exI[of _ s] exI[of _ "points s ! i"]) simp
next
  case (Cons m moves)
  obtain a b where m: "m = (a, b)" by (cases m)
  from on_canvas_drag_dragging[OF Cons.prems, of a b]
  obtain s1 where d: "on_canvas_drag s a b = Inr s1" "points s1 = (points s)[i := (a, b)]"
      "dragging s1" "drag_point_index s1 = Some i" by blast
  have "i < length (points s1)" using d(2) Cons.prems(3) by simp
  from Cons.IH[OF d(3,4) this]
  obtain s' p where s': "handle_all s1 (map (\<lambda>(a, b). B1_Motion a b) moves) = Inr s'"
      "dragging s'" "drag_point_index s' = Some i" "points s' = (points s1)[i := p]"
    by blast
  have "points s' = (points s)[i := p]" using s'(4) d(2) by simp
  with s'(1-3) show ?case
    by (intro exI[of _ s'] exI[of _ p]) (simp add: m d(1))
qed

text \<open>
  Claim C7. A pointer-down that hits point \<open>i\<close>, any number of drag moves and a release
  run without an exception and leave the trace at its length, with point \<open>i\<close> at the
  position of the release and every other point as it was; the drag fields are cleared.
  \<^verbatim>\<open>on_canvas_drag\<close> while not dragging returns the editor as it is.
\<close>

theorem drag_sequence_frame:
  "(find_point_at_position (points s) x y = Some i \<longrightarrow>
      (\<exists>s'. handle_all s (Button1 x y # map (\<lambda>(a, b). B1_Motion a b) moves
                              @ [ButtonRelease1 u v]) = Inr s'
            \<and> points s' = (points s)[i := (u, v)]
            \<and> length (points s') = length (points s)
            \<and> (\<forall>j. j \<noteq> i \<longrightarrow> points s' ! j = points s ! j)
            \<and> \<not> dragging s' \<and> drag_point_index s' = None))
   \<and> (\<not> dragging s \<longrightarrow> on_canvas_drag s a b = Inr s)"
proof (intro conjI impI)
  assume hit: "find_point_at_position (points s) x y = Some i"
  then have i: "i < length (points s)"
    by (simp add: find_point_at_position_Some_iff point_hit_def)
  from on_canvas_click_hit[OF hit]
  obtain s1 where s1: "on_canvas_click s x y = Inr s1" "points s1 = points s"
      "dragging s1" "drag_point_index s1 = Some i" by blast
  have i1: "i < length (points s1)" using i s1(2) by simp
  from drag_moves[OF s1(3,4) i1, of moves]
  obtain s2 p where s2: "handle_all s1 (map (\<lambda>(a, b). B1_Motion a b) moves) = Inr s2"
      "dragging s2" "drag_point_index s2 = Some i" "points s2 = (points s1)[i := p]"
    by blast
  have i2: "i < length (points s2)" using s2(4) i1 by simp
  from on_canvas_release_dragging[OF s2(2,3) i2, of u v]
  obtain s3 where s3: "on_canvas_release s2 u v = Inr s3"
      "points s3 = (points s2)[i := (u, v)]" "\<not> dragging s3" "drag_point_index s3 = None"
    by blast
  have run: "handle_all s (Button1 x y # map (\<lambda>(a, b). B1_Motion a b) moves
                              @ [ButtonRelease1 u v]) = Inr s3"
    by (simp add: s1(1) handle_all_append s2(1) s3(1))
  have pts: "points s3 = (points s)[i := (u, v)]"
    using s3(2) s2(4) s1(2) by simp
  show "\<exists>s'. handle_all s (Button1 x y # map (\<lambda>(a, b). B1_Motion a b) moves
                              @ [ButtonRelease1 u v]) = Inr s'
            \<and> points s' = (points s)[i := (u, v)]
            \<and> length (points s') = length (points s)
            \<and> (\<forall>j. j \<noteq> i \<longrightarrow> points s' ! j = points s ! j)
            \<and> \<not> dragging s' \<and> drag_point_index s' = None"
    unfolding run using pts s3(3,4) by (intro exI[of _ s3]) simp
next
  assume "\<not> dragging s"
  then show "on_canvas_drag s a b = Inr s" by (rule on_canvas_drag_idle)
qed

text \<open>
  The theorem at a concrete input: on the trace \<open>[(0, 0), (100, 0)]\<close>, a pointer-down at
  \<open>(3, 4)\<close>, two moves and a release at \<open>(40, 40)\<close>; and a drag event on the initial editor.
\<close>

theorem drag_sequence_frame_witness:
  "points (projr (handle_all (init\<lparr>points := [(0, 0), (100, 0)]\<rparr>)
      [Button1 3 4, B1_Motion 20 20, B1_Motion 30 30, ButtonRelease1 40 40]))
     = [(40, 40), (100, 0)]
   \<and> on_canvas_drag init 7 7 = Inr init"
proof -
  let ?s = "init\<lparr>points := [(0, 0), (100, 0)]\<rparr>"
  have ps: "points ?s = [(0, 0), (100, 0)]" by (simp add: init_def)
  have hit: "find_point_at_position (points ?s) 3 4 = Some 0"
    by (simp add: ps find_point_at_position_Some_iff point_hit_eval)
  have idle: "\<not> dragging init" by (simp add: init_def)
  obtain s' where s': "handle_all ?s (Button1 3 4 # map (\<lambda>(a, b). B1_Motion a b) [(20, 20), (30, 30)]
                              @ [ButtonRelease1 40 40]) = Inr s'"
      "points s' = (points ?s)[0 := (40, 40)]"
    using drag_sequence_frame[of ?s 3 4 0 "[(20, 20), (30, 30)]" 40 40 7 7] hit by blast
  have "on_canvas_drag init 7 7 = Inr init"
    using drag_sequence_frame[of init 3 4 0 "[]" 40 40 7 7] idle by blast
  moreover have "points (projr (handle_all ?s
      [Button1 3 4, B1_Motion 20 20, B1_Motion 30 30, ButtonRelease1 40 40])) = [(40, 40), (100, 0)]"
    using s' by (simp add: ps)
  ultimately show ?thesis by simp
qed

section \<open>The drag fields\<close>


lemma on_canvas_click_drag_fields:
  "on_canvas_click s x y = Inr s' \<Longrightarrow>
     (dragging s' \<and> (\<exists>i. drag_point_index s' = Some i \<and> point_hit (points s) x y i))
     \<or> (dragging s' = dragging s \<and> drag_point_index s' = drag_point_index s)"
  by (auto simp add: on_canvas_click_def Let_def find_point_at_position_Some_iff
      split: option.splits sum.splits)

lemma on_canvas_drag_drag_fields:
  "on_canvas_drag s x y = Inr s' \<Longrightarrow>
     dragging s' = dragging s \<and> drag_point_index s' = drag_point_index s"
  by (auto simp add: on_canvas_drag_def split: if_splits sum.splits)

lemma on_canvas_release_drag_fields:
  "on_canvas_release s x y = Inr s' \<Longrightarrow>
     (\<not> dragging s' \<and> drag_point_index s' = None)
     \<or> (dragging s' = dragging s \<and> drag_point_index s' = drag_point_index s)"
  by (auto simp add: on_canvas_release_def split: if_splits option.splits sum.splits)

lemma on_mouse_move_drag_fields:
  "dragging (on_mouse_move s x y) = dragging s
   \<and> drag_point_index (on_mouse_move s x y) = drag_point_index s"
  by (simp add: on_mouse_move_def)

lemma delete_point_at_mouse_drag_fields:
  "delete_point_at_mouse s = Inr s' \<Longrightarrow>
     dragging s' = dragging s \<and> drag_point_index s' = drag_point_index s"
  by (auto simp add: delete_point_at_mouse_def split: option.splits sum.splits)

lemma on_key_press_drag_fields:
  "on_key_press s keysym = Inr s' \<Longrightarrow>
     dragging s' = dragging s \<and> drag_point_index s' = drag_point_index s"
  by (auto simp add: on_key_press_def delete_point_at_mouse_drag_fields split: if_splits)

lemma clear_points_drag_fields:
  "dragging (clear_points s) = dragging s
   \<and> drag_point_index (clear_points s) = drag_point_index s"
  by (simp add: clear_points_def)

lemma copy_coordinates_drag_fields:
  "dragging (snd (copy_coordinates s)) = dragging s
   \<and> drag_point_index (snd (copy_coordinates s)) = drag_point_index s"
  by (simp add: copy_coordinates_def Let_def)

lemma step_drag_fields:
  "(\<exists>x y i. e = Button1 x y \<and> dragging (step s e) \<and> drag_point_index (step s e) = Some i
        \<and> point_hit (points s) x y i)
   \<or> (\<exists>x y. e = ButtonRelease1 x y \<and> \<not> dragging (step s e) \<and> drag_point_index (step s e) = None)
   \<or> (dragging (step s e) = dragging s \<and> drag_point_index (step s e) = drag_point_index s)"
proof (cases "dispatch s e")
  case (Inl err)
  then show ?thesis by (simp add: step_def)
next
  case (Inr s')
  then have st: "step s e = s'" by (simp add: step_def)
  show ?thesis
  proof (cases e)
    case (Button1 x y)
    with Inr on_canvas_click_drag_fields[of s x y s'] show ?thesis
      unfolding st by auto
  next
    case (B1_Motion x y)
    with Inr on_canvas_drag_drag_fields[of s x y s'] show ?thesis
      unfolding st by auto
  next
    case (ButtonRelease1 x y)
    with Inr on_canvas_release_drag_fields[of s x y s'] show ?thesis
      unfolding st by auto
  next
    case (Motion x y)
    with Inr on_mouse_move_drag_fields[of s x y] show ?thesis
      unfolding st by auto
  next
    case (Key k)
    with Inr on_key_press_drag_fields[of s k s'] show ?thesis
      unfolding st by auto
  next
    case Clear_All_Points
    with Inr clear_points_drag_fields[of s] show ?thesis
      unfolding st by auto
  next
    case Copy_Coordinates
    with Inr copy_coordinates_drag_fields[of s] show ?thesis
      unfolding st by auto
  qed
qed

lemma step_preserves_drag_pairing:
  assumes "dragging s \<longleftrightarrow> drag_point_index s \<noteq> None"
  shows "dragging (step s e) \<longleftrightarrow> drag_point_index (step s e) \<noteq> None"
  using step_drag_fields[of e s] assms by auto

lemma reachable_drag_pairing:
  "reachable s \<Longrightarrow> (dragging s \<longleftrightarrow> drag_point_index s \<noteq> None)"
proof (induction rule: reachable.induct)
  case reachable_init
  show ?case by (simp add: init_def)
next
  case (reachable_step s e)
  from reachable_step.IH show ?case by (rule step_preserves_drag_pairing)
qed

lemma reachable_run: "reachable s \<Longrightarrow> reachable (run s es)"
  unfolding run_def
  by (induction es arbitrary: s) (auto intro: reachable.intros)

text \<open>
  Claim C10. In every reachable state \<open>dragging\<close> is true exactly when
  \<open>drag_point_index\<close> is not \<^verbatim>\<open>None\<close>. One event changes the two fields only in two ways:
  a pointer-down that hits point \<open>i\<close> sets them to \<open>True\<close> and \<open>Some i\<close>, and a pointer
  release sets them to \<open>False\<close> and \<^verbatim>\<open>None\<close>; every other event, and a handler that raises,
  leaves both as they were.
\<close>

theorem drag_fields_paired:
  "reachable s \<Longrightarrow>
     (dragging s \<longleftrightarrow> drag_point_index s \<noteq> None)
     \<and> ((\<exists>x y i. e = Button1 x y \<and> dragging (step s e) \<and> drag_point_index (step s e) = Some i
            \<and> point_hit (points s) x y i)
        \<or> (\<exists>x y. e = ButtonRelease1 x y \<and> \<not> dragging (step s e)
            \<and> drag_point_index (step s e) = None)
        \<or> (dragging (step s e) = dragging s
            \<and> drag_point_index (step s e) = drag_point_index s))"
  using reachable_drag_pairing[of s] step_drag_fields[of e s] by blast

text \<open>
  The theorem at a reachable state: after a click on the empty canvas, a release and a
  second click on the point just placed, the editor is dragging point 0; the release that
  follows clears both fields.
\<close>

theorem drag_fields_paired_witness:
  "reachable (run init [Button1 50 50, ButtonRelease1 50 50, Button1 51 50])
   \<and> dragging (run init [Button1 50 50, ButtonRelease1 50 50, Button1 51 50])
   \<and> drag_point_index (run init [Button1 50 50, ButtonRelease1 50 50, Button1 51 50]) = Some 0
   \<and> \<not> dragging (run init [Button1 50 50, ButtonRelease1 50 50, Button1 51 50, ButtonRelease1 60 60])
   \<and> drag_point_index
        (run init [Button1 50 50, ButtonRelease1 50 50, Button1 51 50, ButtonRelease1 60 60]) = None"
proof -
  let ?s = "run init [Button1 50 50, ButtonRelease1 50 50, Button1 51 50]"
  have r: "reachable ?s" by (rule reachable_run) (rule reachable_init)
  have f0: "find_point_at_position [] 50 50 = None"
    by (simp add: find_point_at_position_def)
  have l0: "find_line_at_position [] 50 50 = Inr None"
    by (simp add: find_line_at_position_def)
  have s1: "step init (Button1 50 50) = init\<lparr>points := [(50, 50)], status_var := ''Point 1 placed at (50, 50)''\<rparr>"
    by (simp add: step_def on_canvas_click_def init_def f0 l0 Let_def str_eval)
  have f1: "find_point_at_position [(50, 50)] 51 50 = Some 0"
    by (simp add: find_point_at_position_Some_iff point_hit_eval)
  have s: "?s = init\<lparr>points := [(50, 50)], dragging := True, drag_point_index := Some 0,
      drag_start_x := 51, drag_start_y := 50, status_var := ''Dragging point 1''\<rparr>"
    by (simp add: run_def s1) (simp add: step_def on_canvas_release_def on_canvas_click_def init_def f1 str_eval)
  have d: "dragging ?s" "drag_point_index ?s = Some 0" by (simp_all add: s)
  have step: "run init [Button1 50 50, ButtonRelease1 50 50, Button1 51 50, ButtonRelease1 60 60]
      = step ?s (ButtonRelease1 60 60)"
    by (simp add: run_def)
  have rel: "\<not> dragging (step ?s (ButtonRelease1 60 60))
      \<and> drag_point_index (step ?s (ButtonRelease1 60 60)) = None"
    unfolding s by (simp add: step_def on_canvas_release_def list_setitem_def init_def)
  show ?thesis
    using drag_fields_paired[OF r, of "ButtonRelease1 60 60"] r d rel
    unfolding step by simp
qed

section \<open>Export\<close>

text \<open>\<^verbatim>\<open>join\<close> over a list that is not empty: the first string, then each later one behind
  the separator.\<close>

lemma join_map:
  "join sep (f p # map f ps) = f p @ concat (map (\<lambda>q. sep @ f q) ps)"
  by (induction ps arbitrary: p) simp_all

lemma pair_format_sep:
  "(\<lambda>q. sep @ (case q of (a, b) \<Rightarrow> F a b)) = (\<lambda>(a, b). sep @ F a b)"
  by (auto simp add: fun_eq_iff)

text \<open>
  Claim C8. The export text of a trace is the pairs in trace order, each as \<open>(x, y)\<close> with
  the decimal digits of the two integers, the first pair followed by each later pair behind
  a comma and a space; the export text of the empty trace is the empty string. The trace
  \<open>[(1, 2), (3, 4)]\<close> gives \<open>(1, 2), (3, 4)\<close>. On a trace that is not empty
  \<^verbatim>\<open>copy_coordinates\<close> hands this text to the clipboard.
\<close>

theorem coord_list_text:
  "coord_list [] = ''''
   \<and> coord_list ((x, y) # ps) =
       (''('' @ str_int x @ '', '' @ str_int y @ '')'')
       @ concat (map (\<lambda>(a, b). '', '' @ ''('' @ str_int a @ '', '' @ str_int b @ '')'') ps)
   \<and> coord_list [(1, 2), (3, 4)] = ''(1, 2), (3, 4)''
   \<and> coord_list [(- 7, 120)] = ''(-7, 120)''
   \<and> copy_coordinates (s\<lparr>points := (x, y) # ps\<rparr>) =
       (ClipboardCopy (coord_list ((x, y) # ps)),
        s\<lparr>points := (x, y) # ps, status_var := ''Coordinates copied to clipboard!''\<rparr>)"
proof (intro conjI)
  show "coord_list [] = ''''"
    by (simp add: coord_list_def)
next
  show "coord_list ((x, y) # ps) =
       (''('' @ str_int x @ '', '' @ str_int y @ '')'')
       @ concat (map (\<lambda>(a, b). '', '' @ ''('' @ str_int a @ '', '' @ str_int b @ '')'') ps)"
    using join_map[of "'', ''" "\<lambda>(x, y). ''('' @ str_int x @ '', '' @ str_int y @ '')''" "(x, y)" ps]
    unfolding pair_format_sep coord_list_def by simp
next
  show "coord_list [(1, 2), (3, 4)] = ''(1, 2), (3, 4)''"
    by (simp add: coord_list_def str_eval)
next
  show "coord_list [(- 7, 120)] = ''(-7, 120)''"
    by (simp add: coord_list_def str_eval)
next
  show "copy_coordinates (s\<lparr>points := (x, y) # ps\<rparr>) =
       (ClipboardCopy (coord_list ((x, y) # ps)),
        s\<lparr>points := (x, y) # ps, status_var := ''Coordinates copied to clipboard!''\<rparr>)"
    by (simp add: copy_coordinates_def)
qed

text \<open>
  How \<^verbatim>\<open>copy_coordinates\<close> presents a trace without points: a warning box, nothing for the
  clipboard, the editor as it was.
\<close>

lemma copy_coordinates_no_points:
  "copy_coordinates (s\<lparr>points := []\<rparr>) =
     (ShowWarning ''No Points'' ''No points to copy. Place some points first.'', s\<lparr>points := []\<rparr>)"
  by (simp add: copy_coordinates_def)

section \<open>Deleting and clearing\<close>

lemma step_place_first:
  "step init (Button1 50 50) =
     init\<lparr>points := [(50, 50)], status_var := ''Point 1 placed at (50, 50)''\<rparr>"
proof -
  have "find_point_at_position [] 50 50 = None"
    by (simp add: find_point_at_position_def)
  moreover have "find_line_at_position [] 50 50 = Inr None"
    by (simp add: find_line_at_position_def)
  ultimately show ?thesis
    by (simp add: step_def on_canvas_click_def init_def Let_def str_eval)
qed

lemma find_point_single: "find_point_at_position [(50, 50)] 50 50 = Some 0"
  by (simp add: find_point_at_position_Some_iff point_hit_eval)

lemma lower_d: "lower ''d'' = ''d''"
  by (simp add: lower_def lower_char_def)

lemma run_drag_single:
  "run init [Button1 50 50, ButtonRelease1 50 50, Motion 50 50, Button1 50 50] =
     init\<lparr>points := [(50, 50)], dragging := True, drag_point_index := Some 0,
          drag_start_x := 50, drag_start_y := 50, mouse_x := 50, mouse_y := 50,
          status_var := ''Dragging point 1''\<rparr>"
  by (simp add: run_def step_place_first)
     (simp add: step_def on_canvas_release_def on_mouse_move_def on_canvas_click_def init_def
        find_point_single str_eval)

text \<open>
  Claim C6. The invariant "a drag index that is present is a valid index of the trace"
  does not hold in the code. The state below is reached by placing a point, pressing the
  button on it and pressing the key \<open>d\<close> with the button still held: the trace is empty,
  the editor still drags index 0, and the release that follows raises IndexError.
\<close>

theorem delete_leaves_drag_index_dangling:
  "reachable (run init [Button1 50 50, ButtonRelease1 50 50, Motion 50 50, Button1 50 50, Key ''d''])
   \<and> run init [Button1 50 50, ButtonRelease1 50 50, Motion 50 50, Button1 50 50, Key ''d''] =
       init\<lparr>points := [], dragging := True, drag_point_index := Some 0,
            drag_start_x := 50, drag_start_y := 50, mouse_x := 50, mouse_y := 50,
            status_var := ''Deleted point at (50, 50)''\<rparr>
   \<and> on_canvas_release
        (run init [Button1 50 50, ButtonRelease1 50 50, Motion 50 50, Button1 50 50, Key ''d''])
        50 50 = Inl IndexError"
proof -
  let ?evs = "[Button1 50 50, ButtonRelease1 50 50, Motion 50 50, Button1 50 50]"
  have split: "run init [Button1 50 50, ButtonRelease1 50 50, Motion 50 50, Button1 50 50, Key ''d'']
      = step (run init ?evs) (Key ''d'')"
    by (simp add: run_def)
  have s: "step (run init ?evs) (Key ''d'') =
       init\<lparr>points := [], dragging := True, drag_point_index := Some 0,
            drag_start_x := 50, drag_start_y := 50, mouse_x := 50, mouse_y := 50,
            status_var := ''Deleted point at (50, 50)''\<rparr>"
    unfolding run_drag_single
    by (simp add: step_def on_key_press_def lower_d delete_point_at_mouse_def init_def
        find_point_single list_pop_def str_eval)
  have r: "reachable (run init [Button1 50 50, ButtonRelease1 50 50, Motion 50 50, Button1 50 50, Key ''d''])"
    by (rule reachable_run) (rule reachable_init)
  show ?thesis
    using r unfolding split s
    by (simp add: on_canvas_release_def list_setitem_def init_def)
qed

text \<open>What \<^verbatim>\<open>delete_point_at_mouse\<close> does to the trace, and that it never touches the drag fields.\<close>

lemma delete_point_at_mouse_hit:
  assumes "find_point_at_position (points s) (mouse_x s) (mouse_y s) = Some i"
  shows "\<exists>s'. delete_point_at_mouse s = Inr s'
           \<and> points s' = take i (points s) @ drop (Suc i) (points s)
           \<and> Suc (length (points s')) = length (points s)
           \<and> (\<forall>j<i. points s' ! j = points s ! j)
           \<and> (\<forall>j. i \<le> j \<and> Suc j < length (points s) \<longrightarrow> points s' ! j = points s ! Suc j)
           \<and> dragging s' = dragging s \<and> drag_point_index s' = drag_point_index s"
proof -
  from assms have i: "i < length (points s)"
    by (simp add: find_point_at_position_Some_iff point_hit_def)
  then have m: "min (length (points s)) i = i" by simp
  show ?thesis
    using i by (auto simp add: delete_point_at_mouse_def assms list_pop_def nth_append m)
qed

lemma delete_point_at_mouse_miss:
  assumes "find_point_at_position (points s) (mouse_x s) (mouse_y s) = None"
  shows "delete_point_at_mouse s = Inr (s\<lparr>status_var := ''No point near mouse cursor to delete''\<rparr>)"
  using assms by (simp add: delete_point_at_mouse_def)

lemma clear_points_twice:
  "points (clear_points s) = [] \<and> clear_points (clear_points s) = clear_points s"
  by (simp add: clear_points_def)

lemma step_place_second:
  "step (init\<lparr>points := [(50, 50)], status_var := st\<rparr>) (Button1 100 100) =
     init\<lparr>points := [(50, 50), (100, 100)], status_var := ''Point 2 placed at (100, 100)''\<rparr>"
proof -
  have "find_point_at_position [(50, 50)] 100 100 = None"
    unfolding find_point_at_position_None_iff
    by (simp add: point_hit_eval less_Suc_eq nth_Cons')
  moreover have "find_line_at_position [(50, 50)] 100 100 = Inr None"
    by (simp add: find_line_at_position_def)
  ultimately show ?thesis
    by (simp add: step_def on_canvas_click_def init_def Let_def str_eval)
qed

lemma find_point_first_of_two: "find_point_at_position [(50, 50), (100, 100)] 50 50 = Some 0"
  by (simp add: find_point_at_position_Some_iff point_hit_eval)

lemma run_drag_first_of_two:
  "run init [Button1 50 50, ButtonRelease1 50 50, Button1 100 100, ButtonRelease1 100 100,
             Motion 50 50, Button1 50 50] =
     init\<lparr>points := [(50, 50), (100, 100)], dragging := True, drag_point_index := Some 0,
          drag_start_x := 50, drag_start_y := 50, mouse_x := 50, mouse_y := 50,
          status_var := ''Dragging point 1''\<rparr>"
proof -
  have a: "step (step init (Button1 50 50)) (ButtonRelease1 50 50)
      = init\<lparr>points := [(50, 50)], status_var := ''Point 1 placed at (50, 50)''\<rparr>"
    by (simp add: step_place_first) (simp add: step_def on_canvas_release_def init_def)
  have b: "step (step (init\<lparr>points := [(50, 50)], status_var := ''Point 1 placed at (50, 50)''\<rparr>)
        (Button1 100 100)) (ButtonRelease1 100 100)
      = init\<lparr>points := [(50, 50), (100, 100)], status_var := ''Point 2 placed at (100, 100)''\<rparr>"
    by (simp add: step_place_second) (simp add: step_def on_canvas_release_def init_def)
  show ?thesis
    by (simp add: run_def a b)
       (simp add: step_def on_mouse_move_def on_canvas_click_def init_def
          find_point_first_of_two str_eval)
qed

text \<open>
  Claim C4. \<^verbatim>\<open>delete_point_at_mouse\<close> removes the first point within the click radius of
  the cursor, but it does not clear the drag fields when that point is the one being
  dragged. Below, two points are placed, the button is pressed on the first and the key
  \<open>d\<close> is pressed with the button held: point 0 is removed and the editor still drags
  index 0, which is now the other point; the release then overwrites that point.
\<close>

theorem delete_keeps_drag_state:
  "run init [Button1 50 50, ButtonRelease1 50 50, Button1 100 100, ButtonRelease1 100 100,
             Motion 50 50, Button1 50 50, Key ''d''] =
     init\<lparr>points := [(100, 100)], dragging := True, drag_point_index := Some 0,
          drag_start_x := 50, drag_start_y := 50, mouse_x := 50, mouse_y := 50,
          status_var := ''Deleted point at (50, 50)''\<rparr>
   \<and> points (run init [Button1 50 50, ButtonRelease1 50 50, Button1 100 100,
             ButtonRelease1 100 100, Motion 50 50, Button1 50 50, Key ''d'',
             ButtonRelease1 50 50]) = [(50, 50)]"
proof -
  let ?evs = "[Button1 50 50, ButtonRelease1 50 50, Button1 100 100, ButtonRelease1 100 100,
             Motion 50 50, Button1 50 50]"
  have split: "run init (?evs @ [Key ''d'']) = step (run init ?evs) (Key ''d'')"
    "run init (?evs @ [Key ''d'', ButtonRelease1 50 50])
      = step (step (run init ?evs) (Key ''d'')) (ButtonRelease1 50 50)"
    by (simp_all add: run_def)
  have s: "step (run init ?evs) (Key ''d'') =
     init\<lparr>points := [(100, 100)], dragging := True, drag_point_index := Some 0,
          drag_start_x := 50, drag_start_y := 50, mouse_x := 50, mouse_y := 50,
          status_var := ''Deleted point at (50, 50)''\<rparr>"
    unfolding run_drag_first_of_two
    by (simp add: step_def on_key_press_def lower_d delete_point_at_mouse_def init_def
        find_point_first_of_two list_pop_def str_eval)
  have t: "points (step (step (run init ?evs) (Key ''d'')) (ButtonRelease1 50 50)) = [(50, 50)]"
    unfolding s by (simp add: step_def on_canvas_release_def list_setitem_def init_def)
  show ?thesis
    using s t split by simp
qed

text \<open>
  Claim C5. \<^verbatim>\<open>clear_points\<close> empties the trace (twice in a row as well, without an
  exception), but it does not clear the drag fields. Below, the trace is cleared while
  point 0 is being dragged: the editor still drags index 0 of an empty trace, and the next
  drag event raises IndexError.
\<close>

theorem clear_keeps_drag_state:
  "run init [Button1 50 50, ButtonRelease1 50 50, Motion 50 50, Button1 50 50, Clear_All_Points] =
     init\<lparr>points := [], dragging := True, drag_point_index := Some 0,
          drag_start_x := 50, drag_start_y := 50, mouse_x := 50, mouse_y := 50,
          status_var := ''All points cleared''\<rparr>
   \<and> on_canvas_drag
        (run init [Button1 50 50, ButtonRelease1 50 50, Motion 50 50, Button1 50 50,
                   Clear_All_Points]) 60 60 = Inl IndexError"
proof -
  let ?evs = "[Button1 50 50, ButtonRelease1 50 50, Motion 50 50, Button1 50 50]"
  have split: "run init [Button1 50 50, ButtonRelease1 50 50, Motion 50 50, Button1 50 50,
      Clear_All_Points] = step (run init ?evs) Clear_All_Points"
    by (simp add: run_def)
  have s: "step (run init ?evs) Clear_All_Points =
     init\<lparr>points := [], dragging := True, drag_point_index := Some 0,
          drag_start_x := 50, drag_start_y := 50, mouse_x := 50, mouse_y := 50,
          status_var := ''All points cleared''\<rparr>"
    unfolding run_drag_single by (simp add: step_def clear_points_def init_def)
  show ?thesis
    unfolding split s by (simp add: on_canvas_drag_def list_setitem_def init_def)
qed

end
